theory Spec2Isabelle
  imports Complex_Main "HOL-Library.Log_Nat"
begin

section \<open>Severity scorer (\<^verbatim>\<open>calculateDistrictSeverity\<close>)\<close>

subsection \<open>JavaScript numbers\<close>

text \<open>
  The scorer computes with JavaScript numbers, that is, IEEE 754 binary64
  values. A finite number is modelled by the rational it denotes, and every
  arithmetic operation of the source (\<^verbatim>\<open>*\<close>, \<^verbatim>\<open>/\<close>, \<^verbatim>\<open>+\<close>) by the exact operation
  followed by \<open>binary64\<close>, the rounding to the nearest binary64 value, ties to
  even. A decimal literal of the source (\<^verbatim>\<open>0.4\<close>, \<^verbatim>\<open>3.9\<close>) is the rounding of its
  decimal value. Comparisons, \<^verbatim>\<open>Math.max\<close>, \<^verbatim>\<open>Math.min\<close> and \<^verbatim>\<open>Math.round\<close> are
  exact. Overflow to an infinity is not modelled: the scorer divides only
  values between 0 and its domain bound, and its intermediate values stay
  below 101.
\<close>

text \<open>\<open>floor_log2 x\<close> is the integer \<open>e\<close> with \<open>2\<^sup>e \<le> x < 2\<^sup>e\<^sup>+\<^sup>1\<close>, for positive \<open>x\<close>.\<close>

definition floor_log2 :: "rat \<Rightarrow> int" where
  "floor_log2 x = (if 1 \<le> x then bitlen \<lfloor>x\<rfloor> - 1 else - bitlen (\<lceil>1 / x\<rceil> - 1))"

text \<open>The exponent of the binade of \<open>x\<close>; subnormal numbers share the least exponent.\<close>

definition exponent :: "rat \<Rightarrow> int" where
  "exponent x = max (floor_log2 x) (- 1022)"

definition roundHalfEven :: "rat \<Rightarrow> int" where
  "roundHalfEven y =
     (let f = \<lfloor>y\<rfloor>; r = y - of_int f
      in if r < 1 / 2 then f
         else if 1 / 2 < r then f + 1
         else if even f then f else f + 1)"

text \<open>Rounding of a magnitude to 53 significant bits, and of a signed value.\<close>

definition binary64_abs :: "rat \<Rightarrow> rat" where
  "binary64_abs x =
     (if x = 0 then 0
      else (let ulp = 2 powi (exponent x - 52)
            in of_int (roundHalfEven (x / ulp)) * ulp))"

definition binary64 :: "rat \<Rightarrow> rat" where
  "binary64 x = (if x < 0 then - binary64_abs (- x) else binary64_abs x)"

subsection \<open>The scorer\<close>

datatype RiskLevel = low | moderate | high

datatype SeverityColor = yellow | orange | red

record SeverityResult =
  score :: rat
  color :: SeverityColor
  level :: RiskLevel

definition RAINFALL_MAX :: rat where
  "RAINFALL_MAX = 500"

definition WIND_SPEED_MAX :: rat where
  "WIND_SPEED_MAX = 200"

definition SCORE_MAX :: rat where
  "SCORE_MAX = 10"

definition WEIGHTS_rainfall :: rat where
  "WEIGHTS_rainfall = binary64 (4 / 10)"

definition WEIGHTS_wind :: rat where
  "WEIGHTS_wind = binary64 (3 / 10)"

definition WEIGHTS_flooding :: rat where
  "WEIGHTS_flooding = binary64 (3 / 10)"

fun RISK_LEVEL_SCORES :: "RiskLevel \<Rightarrow> rat" where
  "RISK_LEVEL_SCORES low = 2"
| "RISK_LEVEL_SCORES moderate = 5"
| "RISK_LEVEL_SCORES high = 9"

definition yellow_max :: rat where
  "yellow_max = binary64 (39 / 10)"

definition orange_max :: rat where
  "orange_max = binary64 (69 / 10)"

text \<open>\<^verbatim>\<open>Math.round\<close>: the nearest integer, a half rounded towards plus infinity.\<close>

definition Math_round :: "rat \<Rightarrow> rat" where
  "Math_round x = of_int \<lfloor>x + 1 / 2\<rfloor>"

definition normalizeRainfall :: "rat \<Rightarrow> rat" where
  "normalizeRainfall rainfall =
     (if rainfall < 0 then 0
      else if rainfall > RAINFALL_MAX then SCORE_MAX
      else binary64 (binary64 (rainfall / RAINFALL_MAX) * SCORE_MAX))"

definition normalizeWindSpeed :: "rat \<Rightarrow> rat" where
  "normalizeWindSpeed windSpeed =
     (if windSpeed < 0 then 0
      else if windSpeed > WIND_SPEED_MAX then SCORE_MAX
      else binary64 (binary64 (windSpeed / WIND_SPEED_MAX) * SCORE_MAX))"

definition riskLevelToScore :: "RiskLevel \<Rightarrow> rat" where
  "riskLevelToScore riskLevel = RISK_LEVEL_SCORES riskLevel"

definition getSeverityColor :: "rat \<Rightarrow> SeverityColor" where
  "getSeverityColor s =
     (if s < 0 then yellow
      else if s > SCORE_MAX then red
      else if s \<le> yellow_max then yellow
      else if s \<le> orange_max then orange
      else red)"

definition scoreToRiskLevel :: "rat \<Rightarrow> RiskLevel" where
  "scoreToRiskLevel s =
     (if s \<le> yellow_max then low
      else if s \<le> orange_max then moderate
      else high)"

text \<open>The weighted sum, added from left to right.\<close>

definition weightedScore :: "rat \<Rightarrow> rat \<Rightarrow> RiskLevel \<Rightarrow> rat" where
  "weightedScore rainfall windSpeed floodingRisk =
     binary64
       (binary64 (binary64 (normalizeRainfall rainfall * WEIGHTS_rainfall)
                  + binary64 (normalizeWindSpeed windSpeed * WEIGHTS_wind))
        + binary64 (riskLevelToScore floodingRisk * WEIGHTS_flooding))"

definition calculateDistrictSeverity :: "rat \<Rightarrow> rat \<Rightarrow> RiskLevel \<Rightarrow> SeverityResult" where
  "calculateDistrictSeverity rainfall windSpeed floodingRisk =
     (let clampedScore = max 0 (min SCORE_MAX (weightedScore rainfall windSpeed floodingRisk));
          roundedScore = binary64 (Math_round (binary64 (clampedScore * 10)) / 10)
      in \<lparr> score = roundedScore,
           color = getSeverityColor roundedScore,
           level = scoreToRiskLevel roundedScore \<rparr>)"

section \<open>Cache store (services/cache/manager.ts, \<^verbatim>\<open>CacheManager\<close>)\<close>

text \<open>
  Wall-clock time is an integer number of milliseconds. Every read of the clock
  (\<^verbatim>\<open>Date.now()\<close>, \<^verbatim>\<open>new Date()\<close>) is an explicit argument of the operation
  that makes it. The cache is the \<^verbatim>\<open>Map\<close> from keys to entries; operations
  return the updated map next to their result. The operations on a \<^verbatim>\<open>Map\<close> do
  not throw, so the \<^verbatim>\<open>catch\<close> clauses of the cache and of the rate limiter are
  reached only where the model says so.
\<close>

record 'a CacheEntry =
  data :: 'a
  timestamp :: int
  ttl :: int

type_synonym 'a cache = "string \<rightharpoonup> 'a CacheEntry"

definition isValid :: "int \<Rightarrow> string \<Rightarrow> 'a cache \<Rightarrow> bool" where
  "isValid now key c =
     (case c key of
        None \<Rightarrow> False
      | Some entry \<Rightarrow> (let age = now - timestamp entry in age < ttl entry))"

definition CacheManager_get :: "int \<Rightarrow> string \<Rightarrow> 'a cache \<Rightarrow> 'a CacheEntry option \<times> 'a cache" where
  "CacheManager_get now key c =
     (case c key of
        None \<Rightarrow> (None, c)
      | Some entry \<Rightarrow>
          if \<not> isValid now key c then (None, c(key := None))
          else (Some entry, c))"

definition CacheManager_set :: "int \<Rightarrow> string \<Rightarrow> 'a \<Rightarrow> int \<Rightarrow> 'a cache \<Rightarrow> 'a cache" where
  "CacheManager_set now key d t c = c(key \<mapsto> \<lparr> data = d, timestamp = now, ttl = t \<rparr>)"

section \<open>Rate limiter (services/cache/manager.ts, \<^verbatim>\<open>RateLimiter\<close>)\<close>

text \<open>
  A \<^verbatim>\<open>RequestRecord\<close> has the single field \<^verbatim>\<open>timestamp\<close>; the per-endpoint
  array of records is the list of their timestamps, in array order.
\<close>

type_synonym RequestRecord = int

record RateLimiter =
  requests :: "string \<rightharpoonup> RequestRecord list"
  maxRequests :: nat
  windowMs :: int

definition RATE_LIMIT_maxRequests :: nat where
  "RATE_LIMIT_maxRequests = 12"

definition RATE_LIMIT_windowMs :: int where
  "RATE_LIMIT_windowMs = 60 * 60 * 1000"

text \<open>The constructor, and the exported singleton built with the defaults.\<close>

definition newRateLimiter :: "nat \<Rightarrow> int \<Rightarrow> RateLimiter" where
  "newRateLimiter m w = \<lparr> requests = Map.empty, maxRequests = m, windowMs = w \<rparr>"

definition rateLimiter :: RateLimiter where
  "rateLimiter = newRateLimiter RATE_LIMIT_maxRequests RATE_LIMIT_windowMs"

definition cleanupOldRequests :: "int \<Rightarrow> string \<Rightarrow> RateLimiter \<Rightarrow> RateLimiter" where
  "cleanupOldRequests now endpoint rl =
     (case requests rl endpoint of
        None \<Rightarrow> rl
      | Some endpointRequests \<Rightarrow>
          (let validRequests = filter (\<lambda>t. now - t < windowMs rl) endpointRequests
           in if length validRequests = 0
              then rl\<lparr> requests := (requests rl)(endpoint := None) \<rparr>
              else rl\<lparr> requests := (requests rl)(endpoint \<mapsto> validRequests) \<rparr>))"

text \<open>\<^verbatim>\<open>this.requests.get(endpoint) || []\<close>\<close>

definition endpointRequestsOf :: "RateLimiter \<Rightarrow> string \<Rightarrow> RequestRecord list" where
  "endpointRequestsOf rl endpoint = (case requests rl endpoint of None \<Rightarrow> [] | Some rs \<Rightarrow> rs)"

definition canMakeRequest :: "int \<Rightarrow> string \<Rightarrow> RateLimiter \<Rightarrow> bool \<times> RateLimiter" where
  "canMakeRequest now endpoint rl =
     (let rl' = cleanupOldRequests now endpoint rl
      in (length (endpointRequestsOf rl' endpoint) < maxRequests rl', rl'))"

text \<open>
  \<^verbatim>\<open>recordRequest\<close> reads the clock twice: once in the cleanup and once for the
  timestamp it appends.
\<close>

definition recordRequest :: "int \<Rightarrow> int \<Rightarrow> string \<Rightarrow> RateLimiter \<Rightarrow> RateLimiter" where
  "recordRequest cleanupNow now endpoint rl =
     (let rl' = cleanupOldRequests cleanupNow endpoint rl
      in rl'\<lparr> requests := (requests rl')(endpoint \<mapsto> endpointRequestsOf rl' endpoint @ [now]) \<rparr>)"

definition getRemainingRequests :: "int \<Rightarrow> string \<Rightarrow> RateLimiter \<Rightarrow> int \<times> RateLimiter" where
  "getRemainingRequests now endpoint rl =
     (let rl' = cleanupOldRequests now endpoint rl
      in (max 0 (int (maxRequests rl') - int (length (endpointRequestsOf rl' endpoint))), rl'))"

datatype ErrorType =
  NETWORK_ERROR | API_ERROR | RATE_LIMIT_ERROR | VALIDATION_ERROR | STORAGE_ERROR | UNKNOWN_ERROR

text \<open>A \<^verbatim>\<open>DashboardError\<close>; the message text is left out.\<close>

record DashboardError =
  errorType :: ErrorType
  retryable :: bool

text \<open>
  \<^verbatim>\<open>getTimeUntilNextRequest\<close> reads element 0 of the array once the array is at
  the limit. On an empty array (possible only with \<^verbatim>\<open>maxRequests = 0\<close>) the read is
  \<^verbatim>\<open>undefined\<close>, its field access throws, and the handler rethrows a
  rate-limit error.
\<close>

definition getTimeUntilNextRequest ::
    "int \<Rightarrow> int \<Rightarrow> string \<Rightarrow> RateLimiter \<Rightarrow> (DashboardError + int) \<times> RateLimiter" where
  "getTimeUntilNextRequest cleanupNow now endpoint rl =
     (let rl' = cleanupOldRequests cleanupNow endpoint rl;
          endpointRequests = endpointRequestsOf rl' endpoint
      in if length endpointRequests < maxRequests rl' then (Inr 0, rl')
         else (case endpointRequests of
                 [] \<Rightarrow> (Inl \<lparr> errorType = RATE_LIMIT_ERROR, retryable = False \<rparr>, rl')
               | oldestRequest # _ \<Rightarrow>
                   (let timeUntilExpiry = (oldestRequest + windowMs rl') - now
                    in (Inr (max 0 timeUntilExpiry), rl'))))"

text \<open>
  \<^verbatim>\<open>reset(endpoint?)\<close> tests its argument for truthiness: a missing argument and
  the empty string both clear every endpoint.
\<close>

definition reset :: "string option \<Rightarrow> RateLimiter \<Rightarrow> RateLimiter" where
  "reset endpoint rl =
     (case endpoint of
        Some e \<Rightarrow>
          if e \<noteq> [] then rl\<lparr> requests := (requests rl)(e := None) \<rparr>
          else rl\<lparr> requests := Map.empty \<rparr>
      | None \<Rightarrow> rl\<lparr> requests := Map.empty \<rparr>)"

text \<open>
  A run of \<^verbatim>\<open>recordRequest\<close> calls on one endpoint, each with its two clock
  reads, and the clock reads of such a run in the order they are made.
\<close>

fun recordRequests :: "(int \<times> int) list \<Rightarrow> string \<Rightarrow> RateLimiter \<Rightarrow> RateLimiter" where
  "recordRequests [] endpoint rl = rl"
| "recordRequests ((cleanupNow, now) # calls) endpoint rl =
     recordRequests calls endpoint (recordRequest cleanupNow now endpoint rl)"

fun clockReads :: "(int \<times> int) list \<Rightarrow> int list" where
  "clockReads [] = []"
| "clockReads ((cleanupNow, now) # calls) = cleanupNow # now # clockReads calls"

text \<open>
  The states a limiter can reach from its constructor through its public
  operations while the clock never runs backwards. The second argument is the
  latest clock reading.
\<close>

inductive reachable :: "RateLimiter \<Rightarrow> int \<Rightarrow> bool" where
  reach_new: "reachable (newRateLimiter m w) t"
| reach_tick: "reachable rl t \<Longrightarrow> t \<le> t' \<Longrightarrow> reachable rl t'"
| reach_canMakeRequest:
    "reachable rl t \<Longrightarrow> t \<le> now \<Longrightarrow> reachable (snd (canMakeRequest now e rl)) now"
| reach_recordRequest:
    "reachable rl t \<Longrightarrow> t \<le> cleanupNow \<Longrightarrow> cleanupNow \<le> now \<Longrightarrow>
     reachable (recordRequest cleanupNow now e rl) now"
| reach_getRemainingRequests:
    "reachable rl t \<Longrightarrow> t \<le> now \<Longrightarrow> reachable (snd (getRemainingRequests now e rl)) now"
| reach_getTimeUntilNextRequest:
    "reachable rl t \<Longrightarrow> t \<le> cleanupNow \<Longrightarrow> cleanupNow \<le> now \<Longrightarrow>
     reachable (snd (getTimeUntilNextRequest cleanupNow now e rl)) now"
| reach_reset: "reachable rl t \<Longrightarrow> reachable (reset e rl) t"

text \<open>The invariant of the reachable states: every stored list is sorted, non-empty and
  bounded by the latest clock reading.\<close>

definition rateWindowInv :: "RateLimiter \<Rightarrow> int \<Rightarrow> bool" where
  "rateWindowInv rl t \<longleftrightarrow>
     (\<forall>e rs. requests rl e = Some rs \<longrightarrow> sorted rs \<and> rs \<noteq> [] \<and> (\<forall>x \<in> set rs. x \<le> t))"

section \<open>Retrying HTTP access (services/api/client.ts, \<^verbatim>\<open>APIClient\<close>)\<close>

record RetryConfig =
  maxRetries :: nat
  initialDelayMs :: int
  maxDelayMs :: int
  backoffMultiplier :: int

definition DEFAULT_RETRY_CONFIG :: RetryConfig where
  "DEFAULT_RETRY_CONFIG =
     \<lparr> maxRetries = 3, initialDelayMs = 2000, maxDelayMs = 30000, backoffMultiplier = 2 \<rparr>"

text \<open>
  What one call of the base \<^verbatim>\<open>fetch\<close> can do: reject (network failure, or the
  abort of the timeout), or resolve to a response with a status code. The body
  of a response, as \<^verbatim>\<open>response.json()\<close> delivers it: a rejection (not JSON),
  \<^verbatim>\<open>null\<close>, or a value.
\<close>

datatype 'a Body = BodyNotJson | BodyNull | BodyData 'a

datatype 'a Attempt = FetchRejected | Response nat "'a Body"

text \<open>\<^verbatim>\<open>response.ok\<close>: the status is in the range 200 to 299.\<close>

definition response_ok :: "nat \<Rightarrow> bool" where
  "response_ok statusCode \<longleftrightarrow> 200 \<le> statusCode \<and> statusCode \<le> 299"

definition calculateBackoffDelay :: "RetryConfig \<Rightarrow> nat \<Rightarrow> int" where
  "calculateBackoffDelay cfg retryCount =
     (let delay = initialDelayMs cfg * backoffMultiplier cfg ^ retryCount
      in min delay (maxDelayMs cfg))"

text \<open>
  The transport gives the outcome of the attempt made with each retry count.
  The result of a fetch is paired with the backoff delays slept, in order: their
  number is the number of retries.

  In \<^verbatim>\<open>fetchWithRetry\<close> the call of \<^verbatim>\<open>handleHTTPError\<close> is returned without
  \<^verbatim>\<open>await\<close>, so its rejection does not reach the \<^verbatim>\<open>catch\<close> clause; the error
  thrown by \<^verbatim>\<open>validateResponse\<close> and a rejection of \<^verbatim>\<open>response.json()\<close> happen
  inside the \<^verbatim>\<open>try\<close> block and do reach it.
\<close>

function fetchWithRetry ::
    "RetryConfig \<Rightarrow> (nat \<Rightarrow> 'a Attempt) \<Rightarrow> nat \<Rightarrow> (DashboardError + 'a) \<times> int list"
  and handleHTTPError ::
    "RetryConfig \<Rightarrow> (nat \<Rightarrow> 'a Attempt) \<Rightarrow> nat \<Rightarrow> nat \<Rightarrow> (DashboardError + 'a) \<times> int list"
  and handleFetchError ::
    "RetryConfig \<Rightarrow> (nat \<Rightarrow> 'a Attempt) \<Rightarrow> nat \<Rightarrow> (DashboardError + 'a) \<times> int list"
where
  "fetchWithRetry cfg transport retryCount =
     (case transport retryCount of
        FetchRejected \<Rightarrow> handleFetchError cfg transport retryCount
      | Response statusCode body \<Rightarrow>
          if \<not> response_ok statusCode
          then handleHTTPError cfg transport statusCode retryCount
          else (case body of
                  BodyNotJson \<Rightarrow> handleFetchError cfg transport retryCount
                | BodyNull \<Rightarrow> handleFetchError cfg transport retryCount
                | BodyData d \<Rightarrow> (Inr d, [])))"
| "handleHTTPError cfg transport statusCode retryCount =
     (if statusCode \<ge> 500 \<and> statusCode < 600 \<and> retryCount < maxRetries cfg
      then (let delay = calculateBackoffDelay cfg retryCount;
                (r, delays) = fetchWithRetry cfg transport (retryCount + 1)
            in (r, delay # delays))
      else (Inl \<lparr> errorType = API_ERROR, retryable = (statusCode \<ge> 500) \<rparr>, []))"
| "handleFetchError cfg transport retryCount =
     (if retryCount < maxRetries cfg
      then (let delay = calculateBackoffDelay cfg retryCount;
                (r, delays) = fetchWithRetry cfg transport (retryCount + 1)
            in (r, delay # delays))
      else (Inl \<lparr> errorType = NETWORK_ERROR, retryable = True \<rparr>, []))"
  by pat_completeness auto
termination
  by (relation "measure (\<lambda>x. case x of
          Inl (cfg, transport, retryCount) \<Rightarrow> 2 * (maxRetries cfg - retryCount) + 1
        | Inr (Inl (cfg, transport, statusCode, retryCount)) \<Rightarrow> 2 * (maxRetries cfg - retryCount)
        | Inr (Inr (cfg, transport, retryCount)) \<Rightarrow> 2 * (maxRetries cfg - retryCount))") auto

declare fetchWithRetry.simps [simp del]
declare handleHTTPError.simps [simp del]
declare handleFetchError.simps [simp del]

section \<open>Access layer (contexts/DataContext.tsx, \<^verbatim>\<open>fetchWithCacheAndRateLimit\<close>)\<close>

text \<open>
  The function works on the two singletons, the cache and the rate limiter; the
  state is the pair of them. Its clock reads, in the order of the source: the
  \<^verbatim>\<open>get\<close> and the \<^verbatim>\<open>isValid\<close> of the cache check, the cleanup of
  \<^verbatim>\<open>canMakeRequest\<close>, the two reads of \<^verbatim>\<open>recordRequest\<close>, the \<^verbatim>\<open>set\<close>, and
  the \<^verbatim>\<open>get\<close> of the \<^verbatim>\<open>catch\<close> clause.
\<close>

record FetchClock =
  atGet :: int
  atIsValid :: int
  atCanMakeRequest :: int
  atRecordCleanup :: int
  atRecord :: int
  atSet :: int
  atCatchGet :: int

text \<open>
  \<^verbatim>\<open>fetchFn\<close> is given by the outcome of awaiting it: a rejection or a value; it
  is consulted only where the source calls it. \<^verbatim>\<open>truthy\<close> is JavaScript's
  truthiness of a cached value, used by \<^verbatim>\<open>cached?.data || null\<close>. The result is
  \<^verbatim>\<open>Inl\<close> for a rejected promise, \<^verbatim>\<open>Inr None\<close> for \<^verbatim>\<open>null\<close>.
\<close>

definition fetchWithCacheAndRateLimit ::
    "('a \<Rightarrow> bool) \<Rightarrow> FetchClock \<Rightarrow> string \<Rightarrow> (DashboardError + 'a) \<Rightarrow> int \<Rightarrow>
     'a cache \<times> RateLimiter \<Rightarrow> (DashboardError + 'a option) \<times> ('a cache \<times> RateLimiter)" where
  "fetchWithCacheAndRateLimit truthy clock endpoint fetchFn ttlMs state =
     (case state of (c, rl) \<Rightarrow>
      (case CacheManager_get (atGet clock) endpoint c of (cached, c1) \<Rightarrow>
       if cached \<noteq> None \<and> isValid (atIsValid clock) endpoint c1
       then (Inr (map_option data cached), (c1, rl))
       else
        (case canMakeRequest (atCanMakeRequest clock) endpoint rl of (allowed, rl1) \<Rightarrow>
         if \<not> allowed
         then (Inr (case cached of
                      None \<Rightarrow> None
                    | Some entry \<Rightarrow> if truthy (data entry) then Some (data entry) else None),
               (c1, rl1))
         else
          (case fetchFn of
             Inr d \<Rightarrow>
               (Inr (Some d),
                (CacheManager_set (atSet clock) endpoint d ttlMs c1,
                 recordRequest (atRecordCleanup clock) (atRecord clock) endpoint rl1))
           | Inl err \<Rightarrow>
               (case CacheManager_get (atCatchGet clock) endpoint c1 of (cached', c2) \<Rightarrow>
                  (case cached' of
                     Some entry \<Rightarrow> (Inr (Some (data entry)), (c2, rl1))
                   | None \<Rightarrow> (Inl err, (c2, rl1))))))))"

text \<open>A clock that reads the same instant throughout one call.\<close>

definition clockAt :: "int \<Rightarrow> FetchClock" where
  "clockAt t = \<lparr> atGet = t, atIsValid = t, atCanMakeRequest = t, atRecordCleanup = t,
                 atRecord = t, atSet = t, atCatchGet = t \<rparr>"

section \<open>Persistent store (services/storage/manager.ts, \<^verbatim>\<open>StorageManager\<close>)\<close>

definition STORAGE_maxAgeMs :: int where
  "STORAGE_maxAgeMs = 30 * 24 * 60 * 60 * 1000"

definition STORAGE_maxSizeBytes :: int where
  "STORAGE_maxSizeBytes = 5 * 1024 * 1024"

definition LAST_CYCLONE :: string where
  "LAST_CYCLONE = ''cyclone_last_viewed''"

definition SAVED_ROUTES :: string where
  "SAVED_ROUTES = ''cyclone_saved_routes''"

definition CHECKLIST_STATE :: string where
  "CHECKLIST_STATE = ''cyclone_checklist_state''"

definition LANGUAGE_PREFERENCE :: string where
  "LANGUAGE_PREFERENCE = ''cyclone_language_preference''"

text \<open>\<^verbatim>\<open>Object.values(STORAGE_KEYS)\<close>, in declaration order.\<close>

definition STORAGE_KEY_VALUES :: "string list" where
  "STORAGE_KEY_VALUES = [LAST_CYCLONE, SAVED_ROUTES, CHECKLIST_STATE, LANGUAGE_PREFERENCE]"

record SavedRoute =
  route_id :: string
  source :: string
  destination :: string
  savedAt :: int

record ChecklistState =
  items :: "(string \<times> bool) list"
  lastUpdated :: int

datatype Language = en | ta

text \<open>The \<^verbatim>\<open>data\<close> field of a \<^verbatim>\<open>StoredData\<close>, by the kind of value written.\<close>

datatype Payload =
  CycloneId string | Routes "SavedRoute list" | Checklist ChecklistState | Lang Language

text \<open>
  What the store reads from a parsed record: its \<^verbatim>\<open>data\<close> field, and the number
  its \<^verbatim>\<open>timestamp\<close> field stands for in the subtractions of \<^verbatim>\<open>isExpired\<close> and of
  the sort comparator. That number is \<open>None\<close> for \<^verbatim>\<open>NaN\<close>: the field is missing
  (\<^verbatim>\<open>undefined\<close>) or holds a value that does not convert to a number. A numeric
  timestamp is an integer number of milliseconds, as \<^verbatim>\<open>Date.now()\<close> writes it;
  on such values the arithmetic of the source is exact.
\<close>

record StoredData =
  stored_data :: Payload
  stored_timestamp :: "int option"

text \<open>
  A value held by the host's key/value storage is a string. The store reads two
  things from it: its length, and what \<^verbatim>\<open>JSON.parse\<close> makes of it. For
  \<open>item_parsed\<close>, \<open>None\<close> stands for an exception: the string is not JSON, or it
  is the JSON text \<^verbatim>\<open>null\<close>, on which the first field access throws.
\<close>

record Item =
  item_length :: nat
  item_parsed :: "StoredData option"

type_synonym Storage = "string \<rightharpoonup> Item"

record QuotaItem =
  qi_key :: string
  qi_timestamp :: "int option"
  qi_size :: int

text \<open>
  The host: whether \<^verbatim>\<open>localStorage.setItem\<close> accepts a write (it throws when
  the host's own quota is exceeded), the length of the string that
  \<^verbatim>\<open>JSON.stringify\<close> produces, and the ranking by which the engine's
  \<^verbatim>\<open>Array.prototype.sort\<close> orders an array when the comparator is not consistent
  (see \<open>sortItems\<close> below).
\<close>

record Host =
  hostAccepts :: "Storage \<Rightarrow> string \<Rightarrow> Item \<Rightarrow> bool"
  jsonLength :: "StoredData \<Rightarrow> nat"
  engineOrder :: "QuotaItem list \<Rightarrow> QuotaItem \<Rightarrow> int"

text \<open>
  \<^verbatim>\<open>handleStorageError\<close> logs and then throws a storage error: it never returns,
  and the \<^verbatim>\<open>return\<close> statement that follows each call of it is not reached.
\<close>

definition handleStorageError :: DashboardError where
  "handleStorageError = \<lparr> errorType = STORAGE_ERROR, retryable = False \<rparr>"

text \<open>\<^verbatim>\<open>Date.now() - timestamp > maxAge\<close>; a comparison with \<^verbatim>\<open>NaN\<close> is false.\<close>

definition isExpired :: "int \<Rightarrow> int option \<Rightarrow> int \<Rightarrow> bool" where
  "isExpired now ts maxAge = (case ts of None \<Rightarrow> False | Some t \<Rightarrow> now - t > maxAge)"

definition deleteItem :: "string \<Rightarrow> Storage \<Rightarrow> Storage" where
  "deleteItem key s = s(key := None)"

text \<open>
  \<^verbatim>\<open>const item = localStorage.getItem(key); if (!item) ...\<close>: a missing key and the
  empty string are both treated as absent.
\<close>

definition presentItem :: "Storage \<Rightarrow> string \<Rightarrow> Item option" where
  "presentItem s key =
     (case s key of
        None \<Rightarrow> None
      | Some item \<Rightarrow> if item_length item = 0 then None else Some item)"

definition getSavedRoutes :: "int \<Rightarrow> Storage \<Rightarrow> (DashboardError + SavedRoute list) \<times> Storage" where
  "getSavedRoutes now s =
     (case presentItem s SAVED_ROUTES of
        None \<Rightarrow> (Inr [], s)
      | Some item \<Rightarrow>
          (case item_parsed item of
             None \<Rightarrow> (Inl handleStorageError, s)
           | Some stored \<Rightarrow>
               if isExpired now (stored_timestamp stored) STORAGE_maxAgeMs
               then (Inr [], deleteItem SAVED_ROUTES s)
               else (case stored_data stored of
                       Routes routes \<Rightarrow> (Inr routes, s)
                     | _ \<Rightarrow> (Inl handleStorageError, s))))"

definition getStorageSize :: "Storage \<Rightarrow> int" where
  "getStorageSize s =
     foldl (\<lambda>totalSize key.
              case presentItem s key of
                None \<Rightarrow> totalSize
              | Some item \<Rightarrow> totalSize + int (item_length item) * 2)
       0 STORAGE_KEY_VALUES"

text \<open>The first loop of \<^verbatim>\<open>manageStorageQuota\<close>: collect the records with their
  timestamps, removing the ones that do not parse.\<close>

fun collectItems :: "string list \<Rightarrow> QuotaItem list \<Rightarrow> Storage \<Rightarrow> QuotaItem list \<times> Storage" where
  "collectItems [] acc s = (acc, s)"
| "collectItems (key # keys) acc s =
     (if key = LANGUAGE_PREFERENCE then collectItems keys acc s
      else (case presentItem s key of
              None \<Rightarrow> collectItems keys acc s
            | Some item \<Rightarrow>
                (case item_parsed item of
                   Some stored \<Rightarrow>
                     collectItems keys
                       (acc @ [\<lparr> qi_key = key, qi_timestamp = stored_timestamp stored,
                                 qi_size = int (item_length item) * 2 \<rparr>]) s
                 | None \<Rightarrow> collectItems keys acc (s(key := None)))))"

text \<open>The second loop: remove the oldest items until under quota.\<close>

fun removeOldest :: "int \<Rightarrow> int \<Rightarrow> QuotaItem list \<Rightarrow> Storage \<Rightarrow> Storage" where
  "removeOldest currentSize removedSize [] s = s"
| "removeOldest currentSize removedSize (item # rest) s =
     (if currentSize - removedSize \<le> STORAGE_maxSizeBytes then s
      else removeOldest currentSize (removedSize + qi_size item) rest (s(qi_key item := None)))"

text \<open>
  \<^verbatim>\<open>items.sort((a, b) => a.timestamp - b.timestamp)\<close>. When every timestamp is
  a number this is the stable sort by timestamp. When a timestamp is \<^verbatim>\<open>NaN\<close> the
  comparator returns \<^verbatim>\<open>NaN\<close> for every pair with that item, which the sort reads
  as 0: if the numeric timestamps are all equal the comparator is constantly 0
  and the array keeps its order; otherwise the comparator is not consistent and
  the order is left to the engine, which returns some permutation of the array.
  The permutation is given by the host's ranking of the items (their keys are
  distinct, so every permutation is the stable sort by some ranking).
\<close>

definition timestampOrZero :: "QuotaItem \<Rightarrow> int" where
  "timestampOrZero item = (case qi_timestamp item of Some t \<Rightarrow> t | None \<Rightarrow> 0)"

definition comparatorAlwaysZero :: "QuotaItem list \<Rightarrow> bool" where
  "comparatorAlwaysZero collected =
     (case List.map_filter qi_timestamp collected of
        [] \<Rightarrow> True
      | t # ts \<Rightarrow> list_all (\<lambda>u. u = t) ts)"

definition sortItems :: "Host \<Rightarrow> QuotaItem list \<Rightarrow> QuotaItem list" where
  "sortItems host collected =
     (if list_all (\<lambda>item. qi_timestamp item \<noteq> None) collected
      then sort_key timestampOrZero collected
      else if comparatorAlwaysZero collected then collected
      else sort_key (engineOrder host collected) collected)"

definition manageStorageQuota :: "Host \<Rightarrow> Storage \<Rightarrow> Storage" where
  "manageStorageQuota host s =
     (let currentSize = getStorageSize s
      in if currentSize > STORAGE_maxSizeBytes
         then (case collectItems STORAGE_KEY_VALUES [] s of
                 (collected, s1) \<Rightarrow>
                   removeOldest currentSize 0 (sortItems host collected) s1)
         else s)"

text \<open>\<^verbatim>\<open>routes.findIndex(p)\<close>, with \<open>None\<close> for \<open>-1\<close>.\<close>

fun findIndex :: "('a \<Rightarrow> bool) \<Rightarrow> 'a list \<Rightarrow> nat option" where
  "findIndex p [] = None"
| "findIndex p (x # xs) = (if p x then Some 0 else map_option Suc (findIndex p xs))"

text \<open>
  \<^verbatim>\<open>JSON.stringify(stored)\<close>: a string of the length the host gives, which parses
  back to \<open>stored\<close>.
\<close>

definition stringify :: "Host \<Rightarrow> StoredData \<Rightarrow> Item" where
  "stringify host stored = \<lparr> item_length = jsonLength host stored, item_parsed = Some stored \<rparr>"

text \<open>The update of the route list in \<^verbatim>\<open>saveRoute\<close>: replace the route with the
  same source and destination, or append.\<close>

definition upsertRoute :: "SavedRoute \<Rightarrow> SavedRoute list \<Rightarrow> SavedRoute list" where
  "upsertRoute route routes =
     (let existingIndex =
            findIndex (\<lambda>r. source r = source route \<and> destination r = destination route) routes
      in case existingIndex of
           Some i \<Rightarrow> routes[i := route]
         | None \<Rightarrow> routes @ [route])"

text \<open>
  \<^verbatim>\<open>saveRoute\<close> reads the clock in \<^verbatim>\<open>getSavedRoutes\<close> and again for the timestamp
  of the record it writes. An error of \<^verbatim>\<open>getSavedRoutes\<close> or of \<^verbatim>\<open>setItem\<close> is
  caught and rethrown by \<^verbatim>\<open>handleStorageError\<close>.
\<close>

definition saveRoute ::
    "Host \<Rightarrow> int \<Rightarrow> int \<Rightarrow> SavedRoute \<Rightarrow> Storage \<Rightarrow> (DashboardError + unit) \<times> Storage" where
  "saveRoute host readNow now route s =
     (case getSavedRoutes readNow s of
        (Inl err, s1) \<Rightarrow> (Inl handleStorageError, s1)
      | (Inr routes, s1) \<Rightarrow>
          (let routes' = upsertRoute route routes;
               stored = \<lparr> stored_data = Routes routes', stored_timestamp = Some now \<rparr>;
               item = stringify host stored
           in if \<not> hostAccepts host s1 SAVED_ROUTES item then (Inl handleStorageError, s1)
              else (Inr (), manageStorageQuota host (s1(SAVED_ROUTES \<mapsto> item)))))"

text \<open>The records that \<^verbatim>\<open>saveRoute\<close> and \<^verbatim>\<open>saveChecklistState\<close> write.\<close>

definition routesRecord :: "Host \<Rightarrow> SavedRoute list \<Rightarrow> int \<Rightarrow> Item" where
  "routesRecord host routes now =
     stringify host \<lparr> stored_data = Routes routes, stored_timestamp = Some now \<rparr>"

definition checklistRecord :: "Host \<Rightarrow> ChecklistState \<Rightarrow> int \<Rightarrow> Item" where
  "checklistRecord host state now =
     stringify host \<lparr> stored_data = Checklist state, stored_timestamp = Some now \<rparr>"

definition saveChecklistState ::
    "Host \<Rightarrow> int \<Rightarrow> ChecklistState \<Rightarrow> Storage \<Rightarrow> (DashboardError + unit) \<times> Storage" where
  "saveChecklistState host now state s =
     (let stored = \<lparr> stored_data = Checklist state, stored_timestamp = Some now \<rparr>;
          item = stringify host stored
      in if \<not> hostAccepts host s CHECKLIST_STATE item then (Inl handleStorageError, s)
         else (Inr (), manageStorageQuota host (s(CHECKLIST_STATE \<mapsto> item))))"

text \<open>
  The quota rule in the words of the specification: when the total size exceeds
  the quota, the non-exempt records are taken oldest first and deleted one at a
  time, the total being measured anew before each deletion, until it is at or
  below the quota. A record without a numeric timestamp is taken with
  timestamp 0.
\<close>

definition evictableKeys :: "string list" where
  "evictableKeys = filter (\<lambda>key. key \<noteq> LANGUAGE_PREFERENCE) STORAGE_KEY_VALUES"

definition recordTimestamp :: "Storage \<Rightarrow> string \<Rightarrow> int" where
  "recordTimestamp s key =
     (case s key of
        None \<Rightarrow> 0
      | Some item \<Rightarrow>
          (case item_parsed item of
             None \<Rightarrow> 0
           | Some stored \<Rightarrow> (case stored_timestamp stored of None \<Rightarrow> 0 | Some t \<Rightarrow> t)))"

fun deleteUntilUnderQuota :: "string list \<Rightarrow> Storage \<Rightarrow> Storage" where
  "deleteUntilUnderQuota [] s = s"
| "deleteUntilUnderQuota (key # keys) s =
     (if getStorageSize s \<le> STORAGE_maxSizeBytes then s
      else deleteUntilUnderQuota keys (s(key := None)))"

definition spec_quotaEviction :: "Storage \<Rightarrow> Storage" where
  "spec_quotaEviction s =
     (if getStorageSize s > STORAGE_maxSizeBytes
      then deleteUntilUnderQuota
             (sort_key (recordTimestamp s) (filter (\<lambda>key. presentItem s key \<noteq> None) evictableKeys)) s
      else s)"

text \<open>Every non-exempt record that is present parses and has a numeric timestamp.\<close>

definition wellFormedRecord :: "Item \<Rightarrow> bool" where
  "wellFormedRecord item =
     (case item_parsed item of
        None \<Rightarrow> False
      | Some stored \<Rightarrow> stored_timestamp stored \<noteq> None)"

definition allRecordsWellFormed :: "Storage \<Rightarrow> bool" where
  "allRecordsWellFormed s =
     list_all (\<lambda>key. case presentItem s key of
                       None \<Rightarrow> True
                     | Some item \<Rightarrow> wellFormedRecord item) evictableKeys"

text \<open>The size a record contributes to the total, and the entry that the first loop
  of \<^verbatim>\<open>manageStorageQuota\<close> builds for a record that parses.\<close>

definition recordSize :: "Storage \<Rightarrow> string \<Rightarrow> int" where
  "recordSize s key =
     (case presentItem s key of None \<Rightarrow> 0 | Some item \<Rightarrow> int (item_length item) * 2)"

definition quotaItemOf :: "Storage \<Rightarrow> string \<Rightarrow> QuotaItem" where
  "quotaItemOf s key =
     \<lparr> qi_key = key, qi_timestamp = Some (recordTimestamp s key), qi_size = recordSize s key \<rparr>"

subsection \<open>Example stores and hosts\<close>

definition routeA :: SavedRoute where
  "routeA = \<lparr> route_id = ''r1'', source = ''Chennai'', destination = ''Cuddalore'', savedAt = 250 \<rparr>"

definition routeB :: SavedRoute where
  "routeB = \<lparr> route_id = ''r2'', source = ''Chennai'', destination = ''Nellore'', savedAt = 300 \<rparr>"

definition exampleRoute :: SavedRoute where
  "exampleRoute =
     \<lparr> route_id = ''r3'', source = ''Puducherry'', destination = ''Chennai'', savedAt = 1000 \<rparr>"

text \<open>
  Hosts without a quota of their own, on which every record serializes to 200,
  to two million and to three million characters; and a host that rejects
  every write.
\<close>

definition smallHost :: Host where
  "smallHost = \<lparr> hostAccepts = (\<lambda>s key item. True), jsonLength = (\<lambda>stored. 200),
                 engineOrder = (\<lambda>collected item. 0) \<rparr>"

definition mediumHost :: Host where
  "mediumHost = \<lparr> hostAccepts = (\<lambda>s key item. True), jsonLength = (\<lambda>stored. 2000000),
                  engineOrder = (\<lambda>collected item. 0) \<rparr>"

definition bigHost :: Host where
  "bigHost = \<lparr> hostAccepts = (\<lambda>s key item. True), jsonLength = (\<lambda>stored. 3000000),
               engineOrder = (\<lambda>collected item. 0) \<rparr>"

definition fullHost :: Host where
  "fullHost = \<lparr> hostAccepts = (\<lambda>s key item. False), jsonLength = (\<lambda>stored. 200),
                engineOrder = (\<lambda>collected item. 0) \<rparr>"

text \<open>A string of three million characters that is not JSON.\<close>

definition corruptItem :: Item where
  "corruptItem = \<lparr> item_length = 3000000, item_parsed = None \<rparr>"

definition checklistItem :: Item where
  "checklistItem =
     \<lparr> item_length = 2000,
       item_parsed = Some \<lparr> stored_data = Checklist \<lparr> items = [(''water'', True)], lastUpdated = 200 \<rparr>,
                            stored_timestamp = Some 200 \<rparr> \<rparr>"

definition cycloneItem :: Item where
  "cycloneItem =
     \<lparr> item_length = 700000,
       item_parsed = Some \<lparr> stored_data = CycloneId ''BOB-01'', stored_timestamp = Some 100 \<rparr> \<rparr>"

definition twoRoutesItem :: Item where
  "twoRoutesItem =
     \<lparr> item_length = 400,
       item_parsed = Some \<lparr> stored_data = Routes [routeA, routeB], stored_timestamp = Some 300 \<rparr> \<rparr>"

text \<open>A store that holds a last-cyclone record and two saved routes, and one whose
  last-cyclone record is corrupt.\<close>

definition twoRoutesStore :: Storage where
  "twoRoutesStore = [LAST_CYCLONE \<mapsto> cycloneItem, SAVED_ROUTES \<mapsto> twoRoutesItem]"

definition corruptStore :: Storage where
  "corruptStore = [LAST_CYCLONE \<mapsto> corruptItem, CHECKLIST_STATE \<mapsto> checklistItem]"

definition exampleChecklist :: ChecklistState where
  "exampleChecklist = \<lparr> items = [(''water'', True), (''torch'', False)], lastUpdated = 1000 \<rparr>"

section \<open>Properties of the severity scorer\<close>

subsection \<open>Rounding to binary64 is monotone\<close>

lemma floor_log2_ge1:
  assumes "1 \<le> x"
  shows "2 powi floor_log2 x \<le> x \<and> x < 2 powi (floor_log2 x + 1)"
proof -
  let ?n = "\<lfloor>x\<rfloor>"
  let ?b = "bitlen ?n"
  from assms have n: "0 < ?n" by simp
  from bitlen_bounds [OF n] have lo: "2 ^ nat (?b - 1) \<le> ?n" and hi: "?n < 2 ^ nat ?b"
    by simp_all
  from n have b: "1 \<le> ?b" by (simp add: bitlen_alt_def)
  have e: "floor_log2 x = ?b - 1" using assms by (simp add: floor_log2_def)
  have "(2::rat) powi (?b - 1) = of_int (2 ^ nat (?b - 1))"
    using b by (simp add: power_int_nonneg_exp)
  also have "\<dots> \<le> of_int ?n" using lo by (simp only: of_int_le_iff)
  also have "\<dots> \<le> x" by simp
  finally have A: "2 powi floor_log2 x \<le> x" by (simp add: e)
  from hi have "?n + 1 \<le> 2 ^ nat ?b" by simp
  then have "(of_int (?n + 1) :: rat) \<le> of_int (2 ^ nat ?b)" by (simp only: of_int_le_iff)
  moreover have "x < of_int (?n + 1)" by linarith
  moreover have "(2::rat) powi ?b = of_int (2 ^ nat ?b)"
    using b by (simp add: power_int_nonneg_exp)
  ultimately have B: "x < 2 powi (floor_log2 x + 1)" by (simp add: e)
  from A B show ?thesis ..
qed

lemma floor_log2_lt1:
  assumes "0 < x" "x < 1"
  shows "2 powi floor_log2 x \<le> x \<and> x < 2 powi (floor_log2 x + 1)"
proof -
  let ?y = "1 / x"
  let ?m = "\<lceil>?y\<rceil>"
  let ?k = "bitlen (?m - 1)"
  from assms have y: "1 < ?y" by simp
  then have m: "0 < ?m - 1" by linarith
  from bitlen_bounds [OF m] have lo: "2 ^ nat (?k - 1) \<le> ?m - 1" and hi: "?m - 1 < 2 ^ nat ?k"
    by simp_all
  from m have k: "1 \<le> ?k" by (simp add: bitlen_alt_def)
  have e: "floor_log2 x = - ?k" using assms by (simp add: floor_log2_def)
  from hi have "?m \<le> 2 ^ nat ?k" by simp
  then have mk: "(of_int ?m :: rat) \<le> of_int (2 ^ nat ?k)" by (simp only: of_int_le_iff)
  have "?y \<le> of_int ?m" by (rule le_of_int_ceiling)
  also note mk
  also have "(of_int (2 ^ nat ?k) :: rat) = 2 ^ nat ?k" by simp
  finally have yk: "?y \<le> 2 ^ nat ?k" .
  have "(2::rat) powi (- ?k) = 1 / 2 ^ nat ?k"
    using k by (simp add: power_int_minus power_int_nonneg_exp field_simps)
  moreover from yk assms have "1 / 2 ^ nat ?k \<le> x"
    by (simp add: field_simps)
  ultimately have A: "2 powi floor_log2 x \<le> x" by (simp add: e)
  from lo have km: "(of_int (2 ^ nat (?k - 1)) :: rat) \<le> of_int (?m - 1)"
    by (simp only: of_int_le_iff)
  have "(2 ^ nat (?k - 1) :: rat) = of_int (2 ^ nat (?k - 1))" by simp
  also note km
  also have "(of_int (?m - 1) :: rat) < ?y" by linarith
  finally have ky: "2 ^ nat (?k - 1) < ?y" .
  have "(2::rat) powi (- ?k + 1) = 1 / 2 ^ nat (?k - 1)"
  proof -
    have "- ?k + 1 = - (?k - 1)" by simp
    then have "(2::rat) powi (- ?k + 1) = inverse (2 powi (?k - 1))"
      by (simp only: power_int_minus)
    also have "\<dots> = 1 / 2 ^ nat (?k - 1)"
      using k by (simp add: power_int_nonneg_exp field_simps)
    finally show ?thesis .
  qed
  moreover from ky assms have "x < 1 / 2 ^ nat (?k - 1)"
    by (simp add: field_simps)
  ultimately have B: "x < 2 powi (floor_log2 x + 1)" by (simp add: e)
  from A B show ?thesis ..
qed

lemma floor_log2_bounds:
  assumes "0 < x"
  shows "2 powi floor_log2 x \<le> x" and "x < 2 powi (floor_log2 x + 1)"
  using floor_log2_ge1 [of x] floor_log2_lt1 [of x] assms by (cases "1 \<le> x"; simp)+

lemma floor_log2_mono:
  assumes "0 < x" "x \<le> y"
  shows "floor_log2 x \<le> floor_log2 y"
proof (rule ccontr)
  assume "\<not> floor_log2 x \<le> floor_log2 y"
  then have "floor_log2 y + 1 \<le> floor_log2 x" by simp
  then have "(2::rat) powi (floor_log2 y + 1) \<le> 2 powi floor_log2 x"
    by (rule power_int_increasing) simp
  also have "\<dots> \<le> x" using assms(1) by (rule floor_log2_bounds)
  also have "\<dots> \<le> y" by fact
  also have "\<dots> < 2 powi (floor_log2 y + 1)"
    using assms by (intro floor_log2_bounds) simp
  finally show False by simp
qed

lemma roundHalfEven_bounds: "\<lfloor>y\<rfloor> \<le> roundHalfEven y" "roundHalfEven y \<le> \<lfloor>y\<rfloor> + 1"
  by (simp_all add: roundHalfEven_def Let_def)

lemma roundHalfEven_of_int [simp]: "roundHalfEven (of_int n) = n"
  by (simp add: roundHalfEven_def)

lemma roundHalfEven_mono:
  assumes "a \<le> b"
  shows "roundHalfEven a \<le> roundHalfEven b"
proof (cases "\<lfloor>a\<rfloor> = \<lfloor>b\<rfloor>")
  case True
  with assms show ?thesis
    by (auto simp: roundHalfEven_def Let_def)
next
  case False
  with assms have "\<lfloor>a\<rfloor> + 1 \<le> \<lfloor>b\<rfloor>"
    using floor_mono [OF assms] by linarith
  with roundHalfEven_bounds(2) [of a] roundHalfEven_bounds(1) [of b] show ?thesis
    by linarith
qed

lemma roundHalfEven_le_int: "y \<le> of_int n \<Longrightarrow> roundHalfEven y \<le> n"
  using roundHalfEven_mono [of y "of_int n"] by simp

lemma roundHalfEven_ge_int: "of_int n \<le> y \<Longrightarrow> n \<le> roundHalfEven y"
  using roundHalfEven_mono [of "of_int n" y] by simp



lemma binary64_abs_pos:
  "x \<noteq> 0 \<Longrightarrow> binary64_abs x =
     of_int (roundHalfEven (x / 2 powi (exponent x - 52))) * 2 powi (exponent x - 52)"
  by (simp add: binary64_abs_def Let_def)

lemma ulp_pos: "0 < (2::rat) powi k"
  by (rule zero_less_power_int) simp

lemma scale_53: "(2::rat) powi (e + 1) / 2 powi (e - 52) = of_int (2 ^ 53)"
proof -
  have "(2::rat) powi (e + 1) / 2 powi (e - 52) = 2 powi ((e + 1) - (e - 52))"
    by (rule power_int_diff [symmetric]) simp
  also have "(e + 1) - (e - 52) = 53" by simp
  finally show ?thesis by (simp add: power_int_numeral)
qed

lemma scale_52: "(2::rat) powi e / 2 powi (e - 52) = of_int (2 ^ 52)"
proof -
  have "(2::rat) powi e / 2 powi (e - 52) = 2 powi (e - (e - 52))"
    by (rule power_int_diff [symmetric]) simp
  also have "e - (e - 52) = 52" by simp
  finally show ?thesis by (simp add: power_int_numeral)
qed

lemma binary64_abs_nonneg:
  assumes "0 \<le> x"
  shows "0 \<le> binary64_abs x"
proof (cases "x = 0")
  case True
  then show ?thesis by (simp add: binary64_abs_def)
next
  case False
  let ?u = "(2::rat) powi (exponent x - 52)"
  have u: "0 < ?u" by (rule ulp_pos)
  with assms have "0 \<le> x / ?u" by simp
  then have "of_int 0 \<le> x / ?u" by simp
  then have "0 \<le> roundHalfEven (x / ?u)" by (rule roundHalfEven_ge_int)
  with u show ?thesis by (simp add: binary64_abs_pos [OF False])
qed

lemma binary64_abs_upper:
  assumes "0 < x"
  shows "binary64_abs x \<le> 2 powi (exponent x + 1)"
proof -
  let ?e = "exponent x"
  let ?u = "(2::rat) powi (?e - 52)"
  have u: "0 < ?u" by (rule ulp_pos)
  have "x < 2 powi (floor_log2 x + 1)" using assms by (rule floor_log2_bounds)
  also have "\<dots> \<le> 2 powi (?e + 1)"
    by (rule power_int_increasing) (simp_all add: exponent_def)
  finally have "x / ?u \<le> 2 powi (?e + 1) / ?u"
    using u by (simp add: divide_right_mono)
  then have "x / ?u \<le> of_int (2 ^ 53)" by (simp only: scale_53)
  then have "roundHalfEven (x / ?u) \<le> 2 ^ 53" by (rule roundHalfEven_le_int)
  then have "(of_int (roundHalfEven (x / ?u)) :: rat) \<le> of_int (2 ^ 53)"
    by (simp only: of_int_le_iff)
  then have "of_int (roundHalfEven (x / ?u)) * ?u \<le> of_int (2 ^ 53) * ?u"
    using u by (simp only: mult_right_mono less_imp_le)
  also have "of_int (2 ^ 53) * ?u = 2 powi (?e + 1)"
    using scale_53 [of ?e] u by (simp add: field_simps)
  finally show ?thesis using assms by (simp add: binary64_abs_pos)
qed

lemma binary64_abs_lower:
  assumes "0 < x" and "- 1022 \<le> floor_log2 x"
  shows "2 powi (exponent x) \<le> binary64_abs x"
proof -
  let ?e = "exponent x"
  let ?u = "(2::rat) powi (?e - 52)"
  have u: "0 < ?u" by (rule ulp_pos)
  from assms(2) have e: "?e = floor_log2 x" by (simp add: exponent_def)
  have "2 powi ?e \<le> x" unfolding e using assms(1) by (rule floor_log2_bounds)
  then have "2 powi ?e / ?u \<le> x / ?u"
    using u by (simp add: divide_right_mono)
  then have "of_int (2 ^ 52) \<le> x / ?u" by (simp only: scale_52)
  then have "2 ^ 52 \<le> roundHalfEven (x / ?u)" by (rule roundHalfEven_ge_int)
  then have "(of_int (2 ^ 52) :: rat) \<le> of_int (roundHalfEven (x / ?u))"
    by (simp only: of_int_le_iff)
  then have le: "of_int (2 ^ 52) * ?u \<le> of_int (roundHalfEven (x / ?u)) * ?u"
    using u by (simp only: mult_right_mono less_imp_le)
  have "2 powi ?e = of_int (2 ^ 52) * ?u"
    using scale_52 [of ?e] u by (simp add: field_simps)
  also note le
  finally show ?thesis using assms by (simp add: binary64_abs_pos)
qed

lemma exponent_mono:
  assumes "0 < x" "x \<le> y"
  shows "exponent x \<le> exponent y"
  using floor_log2_mono [OF assms] by (simp add: exponent_def)

lemma binary64_abs_mono:
  assumes "0 \<le> x" "x \<le> y"
  shows "binary64_abs x \<le> binary64_abs y"
proof (cases "x = 0")
  case True
  with assms binary64_abs_nonneg [of y] show ?thesis by (simp add: binary64_abs_def)
next
  case False
  with assms have x: "0 < x" and y: "0 < y" by simp_all
  show ?thesis
  proof (cases "exponent x = exponent y")
    case True
    let ?u = "(2::rat) powi (exponent y - 52)"
    have u: "0 < ?u" by (rule ulp_pos)
    from assms(2) u have "x / ?u \<le> y / ?u" by (simp add: divide_right_mono)
    then have "roundHalfEven (x / ?u) \<le> roundHalfEven (y / ?u)" by (rule roundHalfEven_mono)
    then have "(of_int (roundHalfEven (x / ?u)) :: rat) \<le> of_int (roundHalfEven (y / ?u))"
      by (simp only: of_int_le_iff)
    then have "of_int (roundHalfEven (x / ?u)) * ?u \<le> of_int (roundHalfEven (y / ?u)) * ?u"
      using u by (simp only: mult_right_mono less_imp_le)
    with x y True show ?thesis by (simp add: binary64_abs_pos)
  next
    case False
    with exponent_mono [OF x assms(2)] have lt: "exponent x + 1 \<le> exponent y" by simp
    then have "- 1022 < exponent y" by (simp add: exponent_def)
    then have fy: "- 1022 \<le> floor_log2 y" by (simp add: exponent_def)
    have "binary64_abs x \<le> 2 powi (exponent x + 1)" using x by (rule binary64_abs_upper)
    also have "\<dots> \<le> 2 powi (exponent y)"
      using lt by (rule power_int_increasing) simp
    also have "\<dots> \<le> binary64_abs y" using y fy by (rule binary64_abs_lower)
    finally show ?thesis .
  qed
qed

lemma binary64_mono:
  assumes "x \<le> y"
  shows "binary64 x \<le> binary64 y"
proof (cases "x < 0")
  case xneg: True
  show ?thesis
  proof (cases "y < 0")
    case True
    with assms binary64_abs_mono [of "- y" "- x"] xneg show ?thesis
      by (simp add: binary64_def)
  next
    case False
    with binary64_abs_nonneg [of "- x"] binary64_abs_nonneg [of y] xneg show ?thesis
      by (simp add: binary64_def)
  qed
next
  case False
  with assms binary64_abs_mono [of x y] show ?thesis
    by (simp add: binary64_def)
qed

lemma binary64_nonneg: "0 \<le> x \<Longrightarrow> 0 \<le> binary64 x"
  using binary64_abs_nonneg [of x] by (simp add: binary64_def)

lemma binary64_of_int_small:
  "binary64 1 = 1" "binary64 10 = 10" "binary64 0 = 0"
  by code_simp+

subsection \<open>The scorer\<close>

lemma normalizeRainfall_nonneg: "0 \<le> normalizeRainfall a"
  by (simp add: normalizeRainfall_def RAINFALL_MAX_def SCORE_MAX_def binary64_nonneg)

lemma normalizeRainfall_le: "normalizeRainfall a \<le> 10"
proof (cases "a < 0 \<or> a > 500")
  case True
  then show ?thesis by (auto simp: normalizeRainfall_def RAINFALL_MAX_def SCORE_MAX_def)
next
  case False
  then have "a / 500 \<le> 1" by simp
  then have "binary64 (a / 500) * 10 \<le> binary64 1 * 10"
    by (simp add: binary64_mono)
  then have "binary64 (binary64 (a / 500) * 10) \<le> binary64 (binary64 1 * 10)"
    by (rule binary64_mono)
  with False show ?thesis
    by (simp add: normalizeRainfall_def RAINFALL_MAX_def SCORE_MAX_def binary64_of_int_small)
qed

lemma normalizeRainfall_mono:
  assumes "a \<le> b"
  shows "normalizeRainfall a \<le> normalizeRainfall b"
proof (cases "a < 0")
  case True
  then show ?thesis using normalizeRainfall_nonneg [of b] by (simp add: normalizeRainfall_def)
next
  case a: False
  show ?thesis
  proof (cases "b > 500")
    case True
    with a assms normalizeRainfall_le [of a] show ?thesis
      by (simp add: normalizeRainfall_def RAINFALL_MAX_def SCORE_MAX_def)
  next
    case False
    from assms have "binary64 (a / 500) * 10 \<le> binary64 (b / 500) * 10"
      by (simp add: binary64_mono divide_right_mono)
    then have "binary64 (binary64 (a / 500) * 10) \<le> binary64 (binary64 (b / 500) * 10)"
      by (rule binary64_mono)
    with a False assms show ?thesis
      by (simp add: normalizeRainfall_def RAINFALL_MAX_def SCORE_MAX_def)
  qed
qed

lemma normalizeWindSpeed_nonneg: "0 \<le> normalizeWindSpeed a"
  by (simp add: normalizeWindSpeed_def WIND_SPEED_MAX_def SCORE_MAX_def binary64_nonneg)

lemma normalizeWindSpeed_le: "normalizeWindSpeed a \<le> 10"
proof (cases "a < 0 \<or> a > 200")
  case True
  then show ?thesis by (auto simp: normalizeWindSpeed_def WIND_SPEED_MAX_def SCORE_MAX_def)
next
  case False
  then have "a / 200 \<le> 1" by simp
  then have "binary64 (a / 200) * 10 \<le> binary64 1 * 10"
    by (simp add: binary64_mono)
  then have "binary64 (binary64 (a / 200) * 10) \<le> binary64 (binary64 1 * 10)"
    by (rule binary64_mono)
  with False show ?thesis
    by (simp add: normalizeWindSpeed_def WIND_SPEED_MAX_def SCORE_MAX_def binary64_of_int_small)
qed

lemma normalizeWindSpeed_mono:
  assumes "a \<le> b"
  shows "normalizeWindSpeed a \<le> normalizeWindSpeed b"
proof (cases "a < 0")
  case True
  then show ?thesis using normalizeWindSpeed_nonneg [of b] by (simp add: normalizeWindSpeed_def)
next
  case a: False
  show ?thesis
  proof (cases "b > 200")
    case True
    with a assms normalizeWindSpeed_le [of a] show ?thesis
      by (simp add: normalizeWindSpeed_def WIND_SPEED_MAX_def SCORE_MAX_def)
  next
    case False
    from assms have "binary64 (a / 200) * 10 \<le> binary64 (b / 200) * 10"
      by (simp add: binary64_mono divide_right_mono)
    then have "binary64 (binary64 (a / 200) * 10) \<le> binary64 (binary64 (b / 200) * 10)"
      by (rule binary64_mono)
    with a False assms show ?thesis
      by (simp add: normalizeWindSpeed_def WIND_SPEED_MAX_def SCORE_MAX_def)
  qed
qed

lemma weights_nonneg: "0 \<le> WEIGHTS_rainfall" "0 \<le> WEIGHTS_wind" "0 \<le> WEIGHTS_flooding"
  by (simp_all add: WEIGHTS_rainfall_def WEIGHTS_wind_def WEIGHTS_flooding_def binary64_nonneg)

lemma weightedScore_mono:
  assumes "normalizeRainfall r1 \<le> normalizeRainfall r2"
    and "normalizeWindSpeed w1 \<le> normalizeWindSpeed w2"
  shows "weightedScore r1 w1 f \<le> weightedScore r2 w2 f"
proof -
  have "binary64 (normalizeRainfall r1 * WEIGHTS_rainfall)
      \<le> binary64 (normalizeRainfall r2 * WEIGHTS_rainfall)"
    by (rule binary64_mono) (rule mult_right_mono [OF assms(1) weights_nonneg(1)])
  moreover have "binary64 (normalizeWindSpeed w1 * WEIGHTS_wind)
      \<le> binary64 (normalizeWindSpeed w2 * WEIGHTS_wind)"
    by (rule binary64_mono) (rule mult_right_mono [OF assms(2) weights_nonneg(2)])
  ultimately have "binary64 (normalizeRainfall r1 * WEIGHTS_rainfall)
        + binary64 (normalizeWindSpeed w1 * WEIGHTS_wind)
      \<le> binary64 (normalizeRainfall r2 * WEIGHTS_rainfall)
        + binary64 (normalizeWindSpeed w2 * WEIGHTS_wind)"
    by (rule add_mono)
  then have "binary64 (binary64 (normalizeRainfall r1 * WEIGHTS_rainfall)
        + binary64 (normalizeWindSpeed w1 * WEIGHTS_wind))
      \<le> binary64 (binary64 (normalizeRainfall r2 * WEIGHTS_rainfall)
        + binary64 (normalizeWindSpeed w2 * WEIGHTS_wind))"
    by (rule binary64_mono)
  then have "binary64 (binary64 (normalizeRainfall r1 * WEIGHTS_rainfall)
        + binary64 (normalizeWindSpeed w1 * WEIGHTS_wind))
        + binary64 (riskLevelToScore f * WEIGHTS_flooding)
      \<le> binary64 (binary64 (normalizeRainfall r2 * WEIGHTS_rainfall)
        + binary64 (normalizeWindSpeed w2 * WEIGHTS_wind))
        + binary64 (riskLevelToScore f * WEIGHTS_flooding)"
    by (rule add_right_mono)
  then show ?thesis
    unfolding weightedScore_def by (rule binary64_mono)
qed

lemma Math_round_mono: "a \<le> b \<Longrightarrow> Math_round a \<le> Math_round b"
  by (simp add: Math_round_def floor_mono)

lemma score_calculateDistrictSeverity:
  "score (calculateDistrictSeverity r w f) =
     binary64 (Math_round (binary64 (max 0 (min SCORE_MAX (weightedScore r w f)) * 10)) / 10)"
  by (simp add: calculateDistrictSeverity_def Let_def)

lemma score_mono_weighted:
  assumes "weightedScore r1 w1 f \<le> weightedScore r2 w2 f"
  shows "score (calculateDistrictSeverity r1 w1 f) \<le> score (calculateDistrictSeverity r2 w2 f)"
proof -
  from assms
  have "max 0 (min SCORE_MAX (weightedScore r1 w1 f)) * 10
          \<le> max 0 (min SCORE_MAX (weightedScore r2 w2 f)) * 10"
    by (simp add: max.coboundedI2 min.coboundedI2)
  then have "Math_round (binary64 (max 0 (min SCORE_MAX (weightedScore r1 w1 f)) * 10)) / 10
      \<le> Math_round (binary64 (max 0 (min SCORE_MAX (weightedScore r2 w2 f)) * 10)) / 10"
    by (intro divide_right_mono Math_round_mono binary64_mono) simp_all
  then show ?thesis
    unfolding score_calculateDistrictSeverity by (rule binary64_mono)
qed

text \<open>
  The model computes what binary64 arithmetic computes where it differs from
  exact arithmetic: at rainfall 0, wind 30 and low flooding risk the exact
  weighted sum is 1.05 and would round to 1.1, the binary64 sum rounds to 1.0;
  at rainfall 2.5, wind 82 and high risk the exact sum is 3.95, the score is 3.9.
\<close>

lemma binary64_examples:
  "calculateDistrictSeverity 0 30 low = \<lparr> score = 1, color = yellow, level = low \<rparr>"
  "calculateDistrictSeverity (5 / 2) 82 high =
     \<lparr> score = binary64 (39 / 10), color = yellow, level = low \<rparr>"
  by code_simp+

text \<open>
  Claim C4, as the spec states it: at the maximal inputs (rainfall 500, wind
  200, flooding risk high) the score is exactly 10.0. The weighted sum there is
  0.4 * 10 + 0.3 * 10 + 0.3 * 9 = 9.7, so the score is not 10.
\<close>

theorem maximal_input_score_not_10:
  "score (calculateDistrictSeverity 500 200 high) \<noteq> 10"
  by code_simp

text \<open>
  Claim C4, amended: at the maximal inputs (rainfall 500, wind 200, flooding
  risk high) the scorer returns score 9.7, that is, the JavaScript number
  written \<^verbatim>\<open>9.7\<close>, with color red and level high.
\<close>

theorem maximal_input_severity:
  "calculateDistrictSeverity 500 200 high =
     \<lparr> score = binary64 (97 / 10), color = red, level = high \<rparr>"
  by code_simp

text \<open>
  Claim C8: with wind speed and flooding risk fixed, the score is a
  non-decreasing function of rainfall over all rainfall values, negative and
  above-domain ones included; and with rainfall and flooding risk fixed it is
  non-decreasing in wind speed.
\<close>

theorem severity_monotone:
  "(r1 \<le> r2 \<longrightarrow>
      score (calculateDistrictSeverity r1 w f) \<le> score (calculateDistrictSeverity r2 w f))
   \<and> (w1 \<le> w2 \<longrightarrow>
      score (calculateDistrictSeverity r w1 f) \<le> score (calculateDistrictSeverity r w2 f))"
proof (intro conjI impI)
  assume "r1 \<le> r2"
  then have "weightedScore r1 w f \<le> weightedScore r2 w f"
    by (intro weightedScore_mono normalizeRainfall_mono order_refl)
  then show "score (calculateDistrictSeverity r1 w f) \<le> score (calculateDistrictSeverity r2 w f)"
    by (rule score_mono_weighted)
next
  assume "w1 \<le> w2"
  then have "weightedScore r w1 f \<le> weightedScore r w2 f"
    by (intro weightedScore_mono normalizeWindSpeed_mono order_refl)
  then show "score (calculateDistrictSeverity r w1 f) \<le> score (calculateDistrictSeverity r w2 f)"
    by (rule score_mono_weighted)
qed

theorem severity_monotone_witness:
  "(-20 :: rat) \<le> 600
   \<and> score (calculateDistrictSeverity (-20) 50 moderate)
        \<le> score (calculateDistrictSeverity 600 50 moderate)
   \<and> (40 :: rat) \<le> 250
   \<and> score (calculateDistrictSeverity 100 40 low)
        \<le> score (calculateDistrictSeverity 100 250 low)"
proof -
  have r: "(-20 :: rat) \<le> 600" and w: "(40 :: rat) \<le> 250"
    by simp_all
  note m = severity_monotone [of "-20" 600 50 moderate 40 250 100]
  from m r have "score (calculateDistrictSeverity (-20) 50 moderate)
        \<le> score (calculateDistrictSeverity 600 50 moderate)"
    by blast
  moreover from severity_monotone [of 0 0 0 low 40 250 100] w
  have "score (calculateDistrictSeverity 100 40 low)
        \<le> score (calculateDistrictSeverity 100 250 low)"
    by blast
  ultimately show ?thesis using r w by blast
qed

section \<open>Properties of the cache store and the rate limiter\<close>

lemma endpointRequestsOf_cleanup:
  "endpointRequestsOf (cleanupOldRequests now e rl) e =
     filter (\<lambda>t. now - t < windowMs rl) (endpointRequestsOf rl e)"
  by (simp add: endpointRequestsOf_def cleanupOldRequests_def Let_def split: option.splits)

lemma cleanup_other:
  "e' \<noteq> e \<Longrightarrow> requests (cleanupOldRequests now e rl) e' = requests rl e'"
  by (simp add: cleanupOldRequests_def Let_def split: option.splits)

lemma cleanup_config [simp]:
  "maxRequests (cleanupOldRequests now e rl) = maxRequests rl"
  "windowMs (cleanupOldRequests now e rl) = windowMs rl"
  by (simp_all add: cleanupOldRequests_def Let_def split: option.splits)

lemma endpointRequestsOf_recordRequest:
  "endpointRequestsOf (recordRequest c n e rl) e =
     filter (\<lambda>t. c - t < windowMs rl) (endpointRequestsOf rl e) @ [n]"
  by (simp add: recordRequest_def Let_def endpointRequestsOf_cleanup)
     (simp add: endpointRequestsOf_def)

lemma recordRequest_config [simp]:
  "maxRequests (recordRequest c n e rl) = maxRequests rl"
  "windowMs (recordRequest c n e rl) = windowMs rl"
  by (simp_all add: recordRequest_def Let_def)

lemma recordRequests_config [simp]:
  "maxRequests (recordRequests calls e rl) = maxRequests rl"
  "windowMs (recordRequests calls e rl) = windowMs rl"
  by (induction calls arbitrary: rl) auto

lemma filter_window_absorb:
  fixes c t w :: int
  assumes "c \<le> t"
  shows "filter (\<lambda>x. t - x < w) (filter (\<lambda>x. c - x < w) xs) = filter (\<lambda>x. t - x < w) xs"
  using assms by (induction xs) auto

lemma window_after_recordRequests:
  assumes "\<forall>x \<in> set (clockReads calls). x \<le> t"
  shows "filter (\<lambda>x. t - x < windowMs rl) (endpointRequestsOf (recordRequests calls e rl) e) =
         filter (\<lambda>x. t - x < windowMs rl) (endpointRequestsOf rl e @ map snd calls)"
  using assms
proof (induction calls arbitrary: rl)
  case Nil
  then show ?case by simp
next
  case (Cons call calls)
  obtain c n where call: "call = (c, n)" by (cases call)
  from Cons.prems call have c: "c \<le> t" and rest: "\<forall>x \<in> set (clockReads calls). x \<le> t"
    by simp_all
  show ?case
    using Cons.IH [OF rest, of "recordRequest c n e rl"] filter_window_absorb [OF c]
    by (simp add: call endpointRequestsOf_recordRequest)
qed


lemma requests_after_recordRequests:
  assumes fresh: "requests rl e = None"
    and clock: "\<forall>x \<in> set (clockReads calls). x \<le> t"
  shows "endpointRequestsOf (cleanupOldRequests t e (recordRequests calls e rl)) e =
         filter (\<lambda>n. t - n < windowMs rl) (map snd calls)"
  using window_after_recordRequests [OF clock, of rl e] fresh
  by (simp add: endpointRequestsOf_cleanup) (simp add: endpointRequestsOf_def)

lemma sorted_append_last_bound:
  fixes xs :: "int list"
  shows "sorted (xs @ [t]) \<Longrightarrow> \<forall>x \<in> set xs. x \<le> t"
  by (simp add: sorted_append)

text \<open>
  Claim C6: on a fresh endpoint of a limiter with the default configuration,
  after \<^verbatim>\<open>recordRequest\<close> has been called N times under a non-decreasing clock,
  with every recorded timestamp still inside the trailing hour at the time of
  the query, \<^verbatim>\<open>canMakeRequest\<close> returns false iff N is at least 12. At any later
  query time the limiter keeps exactly the recorded timestamps that are less than
  one hour old: \<^verbatim>\<open>canMakeRequest\<close> and \<^verbatim>\<open>getRemainingRequests\<close> are computed from
  that count, and once the oldest request is an hour old or more it is pruned and
  the count is smaller than N.
\<close>

theorem sliding_window_rate_limit:
  assumes fresh: "requests rl e = None"
    and cfg: "maxRequests rl = RATE_LIMIT_maxRequests" "windowMs rl = RATE_LIMIT_windowMs"
    and clock: "sorted (clockReads calls @ [t])"
  shows "((\<forall>n \<in> set (map snd calls). t - n < RATE_LIMIT_windowMs) \<longrightarrow>
            (\<not> fst (canMakeRequest t e (recordRequests calls e rl))) = (12 \<le> length calls))
       \<and> endpointRequestsOf (snd (canMakeRequest t e (recordRequests calls e rl))) e =
            filter (\<lambda>n. t - n < RATE_LIMIT_windowMs) (map snd calls)
       \<and> fst (canMakeRequest t e (recordRequests calls e rl)) =
            (length (filter (\<lambda>n. t - n < RATE_LIMIT_windowMs) (map snd calls)) < 12)
       \<and> fst (getRemainingRequests t e (recordRequests calls e rl)) =
            max 0 (12 - int (length (filter (\<lambda>n. t - n < RATE_LIMIT_windowMs) (map snd calls))))
       \<and> (calls \<noteq> [] \<and> RATE_LIMIT_windowMs \<le> t - snd (hd calls) \<longrightarrow>
            snd (hd calls) \<notin> set (endpointRequestsOf (snd (canMakeRequest t e (recordRequests calls e rl))) e)
            \<and> length (filter (\<lambda>n. t - n < RATE_LIMIT_windowMs) (map snd calls)) < length calls)"
proof -
  let ?R = "recordRequests calls e rl"
  let ?W = "filter (\<lambda>n. t - n < RATE_LIMIT_windowMs) (map snd calls)"
  from clock have bound: "\<forall>x \<in> set (clockReads calls). x \<le> t"
    by (rule sorted_append_last_bound)
  have window: "endpointRequestsOf (cleanupOldRequests t e ?R) e = ?W"
    using requests_after_recordRequests [OF fresh bound] cfg by simp
  have can: "fst (canMakeRequest t e ?R) = (length ?W < 12)"
    by (simp add: canMakeRequest_def Let_def window cfg RATE_LIMIT_maxRequests_def)
  have remaining: "fst (getRemainingRequests t e ?R) = max 0 (12 - int (length ?W))"
    by (simp add: getRemainingRequests_def Let_def window cfg RATE_LIMIT_maxRequests_def)
  have state: "endpointRequestsOf (snd (canMakeRequest t e ?R)) e = ?W"
    by (simp add: canMakeRequest_def Let_def window)
  have all_in: "(\<not> fst (canMakeRequest t e ?R)) = (12 \<le> length calls)"
    if "\<forall>n \<in> set (map snd calls). t - n < RATE_LIMIT_windowMs"
  proof -
    from that have "?W = map snd calls" by (simp add: filter_id_conv)
    then have "length ?W = length calls" by simp
    with can show ?thesis by auto
  qed
  have pruned: "snd (hd calls) \<notin> set ?W \<and> length ?W < length calls"
    if "calls \<noteq> []" "RATE_LIMIT_windowMs \<le> t - snd (hd calls)"
  proof -
    from that(1) obtain call rest where calls: "calls = call # rest" by (cases calls) auto
    with that(2) have out: "\<not> t - snd call < RATE_LIMIT_windowMs" by simp
    let ?rest = "filter (\<lambda>n. t - n < RATE_LIMIT_windowMs) (map snd rest)"
    from out calls have w: "?W = ?rest"
      by simp
    have "length ?rest \<le> length (map snd rest)"
      by (rule length_filter_le)
    also have "\<dots> < length calls"
      by (simp add: calls)
    finally have "length ?W < length calls"
      by (simp only: w)
    moreover from out calls have "snd (hd calls) \<notin> set ?W"
      by simp
    ultimately show ?thesis by (rule conjI [rotated])
  qed
  show ?thesis
    unfolding state using all_in can remaining pruned by blast
qed

theorem sliding_window_rate_limit_witness:
  "requests rateLimiter ''x'' = None
   \<and> sorted (clockReads [(0, 0), (1, 1), (2, 2), (3, 3), (4, 4), (5, 5), (6, 6), (7, 7),
                           (8, 8), (9, 9), (10, 10), (11, 11)] @ [3600000])
   \<and> fst (canMakeRequest 12 ''x''
        (recordRequests [(0, 0), (1, 1), (2, 2), (3, 3), (4, 4), (5, 5), (6, 6), (7, 7),
                         (8, 8), (9, 9), (10, 10), (11, 11)] ''x'' rateLimiter)) = False
   \<and> fst (canMakeRequest 3600000 ''x''
        (recordRequests [(0, 0), (1, 1), (2, 2), (3, 3), (4, 4), (5, 5), (6, 6), (7, 7),
                         (8, 8), (9, 9), (10, 10), (11, 11)] ''x'' rateLimiter)) = True
   \<and> fst (getRemainingRequests 3600000 ''x''
        (recordRequests [(0, 0), (1, 1), (2, 2), (3, 3), (4, 4), (5, 5), (6, 6), (7, 7),
                         (8, 8), (9, 9), (10, 10), (11, 11)] ''x'' rateLimiter)) = 1"
proof -
  let ?calls = "[(0, 0), (1, 1), (2, 2), (3, 3), (4, 4), (5, 5), (6, 6), (7, 7),
                 (8, 8), (9, 9), (10, 10), (11, 11)] :: (int \<times> int) list"
  have fresh: "requests rateLimiter ''x'' = None"
    by (simp add: rateLimiter_def newRateLimiter_def)
  have cfg: "maxRequests rateLimiter = RATE_LIMIT_maxRequests"
    "windowMs rateLimiter = RATE_LIMIT_windowMs"
    by (simp_all add: rateLimiter_def newRateLimiter_def)
  have clock1: "sorted (clockReads ?calls @ [12])"
    and clock2: "sorted (clockReads ?calls @ [3600000])"
    by simp_all
  have inside: "\<forall>n \<in> set (map snd ?calls). 12 - n < RATE_LIMIT_windowMs"
    by (simp add: RATE_LIMIT_windowMs_def)
  from sliding_window_rate_limit [OF fresh cfg clock1] inside
  have "(\<not> fst (canMakeRequest 12 ''x'' (recordRequests ?calls ''x'' rateLimiter)))
          = (12 \<le> length ?calls)"
    by blast
  then have a: "fst (canMakeRequest 12 ''x'' (recordRequests ?calls ''x'' rateLimiter)) = False"
    by simp
  from sliding_window_rate_limit [OF fresh cfg clock2]
  have b: "fst (canMakeRequest 3600000 ''x'' (recordRequests ?calls ''x'' rateLimiter)) = True"
    and c: "fst (getRemainingRequests 3600000 ''x'' (recordRequests ?calls ''x'' rateLimiter)) = 1"
    by (simp_all add: RATE_LIMIT_windowMs_def)
  from fresh clock2 a b c show ?thesis by blast
qed


text \<open>
  Claim C7: a value stored by \<^verbatim>\<open>set(key, value, T)\<close> at time \<open>t0\<close> is returned
  unchanged by \<^verbatim>\<open>get(key)\<close> at time \<open>t0 + t\<close> when \<open>t < T\<close>; when \<open>t \<ge> T\<close>
  the \<^verbatim>\<open>get\<close> returns null and removes the entry from the cache.
\<close>

theorem cache_ttl:
  "(t < T \<longrightarrow>
      CacheManager_get (t0 + t) key (CacheManager_set t0 key v T c) =
        (Some \<lparr> data = v, timestamp = t0, ttl = T \<rparr>, CacheManager_set t0 key v T c))
   \<and> (T \<le> t \<longrightarrow>
      CacheManager_get (t0 + t) key (CacheManager_set t0 key v T c) =
        (None, (CacheManager_set t0 key v T c)(key := None)))"
  by (simp add: CacheManager_get_def CacheManager_set_def isValid_def Let_def)


theorem cache_ttl_witness:
  "(240000 :: int) < 300000
   \<and> CacheManager_get (1000 + 240000) ''cyclone''
        (CacheManager_set 1000 ''cyclone'' ''data'' 300000 Map.empty) =
       (Some \<lparr> data = ''data'', timestamp = 1000, ttl = 300000 \<rparr>,
        CacheManager_set 1000 ''cyclone'' ''data'' 300000 Map.empty)
   \<and> (300000 :: int) \<le> 360000
   \<and> CacheManager_get (1000 + 360000) ''cyclone''
        (CacheManager_set 1000 ''cyclone'' ''data'' 300000 Map.empty) =
       (None, (CacheManager_set 1000 ''cyclone'' ''data'' 300000 Map.empty)(''cyclone'' := None))"
proof -
  have early: "(240000 :: int) < 300000" and late: "(300000 :: int) \<le> 360000"
    by simp_all
  from cache_ttl [of 240000 300000 1000 "''cyclone''" "''data''" Map.empty] early
  have a: "CacheManager_get (1000 + 240000) ''cyclone''
        (CacheManager_set 1000 ''cyclone'' ''data'' 300000 Map.empty) =
       (Some \<lparr> data = ''data'', timestamp = 1000, ttl = 300000 \<rparr>,
        CacheManager_set 1000 ''cyclone'' ''data'' 300000 Map.empty)"
    by blast
  from cache_ttl [of 360000 300000 1000 "''cyclone''" "''data''" Map.empty] late
  have b: "CacheManager_get (1000 + 360000) ''cyclone''
        (CacheManager_set 1000 ''cyclone'' ''data'' 300000 Map.empty) =
       (None, (CacheManager_set 1000 ''cyclone'' ''data'' 300000 Map.empty)(''cyclone'' := None))"
    by blast
  from early a late b show ?thesis by blast
qed


lemma inv_cleanup:
  assumes "rateWindowInv rl t"
  shows "rateWindowInv (cleanupOldRequests now e rl) t"
  unfolding rateWindowInv_def
proof (intro allI impI)
  fix e' rs
  assume rs: "requests (cleanupOldRequests now e rl) e' = Some rs"
  show "sorted rs \<and> rs \<noteq> [] \<and> (\<forall>x \<in> set rs. x \<le> t)"
  proof (cases "e' = e")
    case False
    with rs assms show ?thesis
      by (simp add: cleanup_other rateWindowInv_def)
  next
    case True
    with rs obtain old where old: "requests rl e = Some old"
      and new: "rs = filter (\<lambda>x. now - x < windowMs rl) old" and ne: "rs \<noteq> []"
      by (auto simp: cleanupOldRequests_def Let_def split: option.splits if_splits)
    from assms old have "sorted old" "\<forall>x \<in> set old. x \<le> t"
      by (auto simp: rateWindowInv_def)
    with new ne show ?thesis by (auto simp: sorted_wrt_filter)
  qed
qed

lemma inv_mono:
  assumes "rateWindowInv rl t" and "t \<le> t'"
  shows "rateWindowInv rl t'"
  unfolding rateWindowInv_def
proof (intro allI impI)
  fix e rs
  assume "requests rl e = Some rs"
  with assms(1) have "sorted rs \<and> rs \<noteq> [] \<and> (\<forall>x \<in> set rs. x \<le> t)"
    by (simp add: rateWindowInv_def)
  with assms(2) show "sorted rs \<and> rs \<noteq> [] \<and> (\<forall>x \<in> set rs. x \<le> t')"
    by auto
qed

lemma inv_recordRequest:
  assumes inv: "rateWindowInv rl t" and le: "t \<le> c" "c \<le> now"
  shows "rateWindowInv (recordRequest c now e rl) now"
  unfolding rateWindowInv_def
proof (intro allI impI)
  fix e' rs
  assume rs: "requests (recordRequest c now e rl) e' = Some rs"
  from inv_mono [OF inv_cleanup [OF inv, of c e]] le
  have inv': "rateWindowInv (cleanupOldRequests c e rl) now" by simp
  show "sorted rs \<and> rs \<noteq> [] \<and> (\<forall>x \<in> set rs. x \<le> now)"
  proof (cases "e' = e")
    case False
    with rs inv' show ?thesis
      by (simp add: recordRequest_def Let_def rateWindowInv_def)
  next
    case True
    with rs have new: "rs = endpointRequestsOf (cleanupOldRequests c e rl) e @ [now]"
      by (simp add: recordRequest_def Let_def)
    have "sorted (endpointRequestsOf (cleanupOldRequests c e rl) e)
        \<and> (\<forall>x \<in> set (endpointRequestsOf (cleanupOldRequests c e rl) e). x \<le> now)"
    proof (cases "requests (cleanupOldRequests c e rl) e")
      case None
      then show ?thesis by (simp add: endpointRequestsOf_def)
    next
      case (Some old)
      with inv' have "sorted old \<and> (\<forall>x \<in> set old. x \<le> now)"
        by (simp add: rateWindowInv_def)
      with Some show ?thesis by (simp add: endpointRequestsOf_def)
    qed
    with new show ?thesis by (simp add: sorted_append)
  qed
qed

lemma inv_reset: "rateWindowInv rl t \<Longrightarrow> rateWindowInv (reset e rl) t"
  by (auto simp: rateWindowInv_def reset_def split: option.splits if_splits)

lemma reachable_inv: "reachable rl t \<Longrightarrow> rateWindowInv rl t"
proof (induction rule: reachable.induct)
  case (reach_new m w t)
  then show ?case by (simp add: rateWindowInv_def newRateLimiter_def)
next
  case (reach_tick rl t t')
  then show ?case by (blast intro: inv_mono)
next
  case (reach_canMakeRequest rl t now e)
  then show ?case
    by (auto simp: canMakeRequest_def Let_def intro: inv_mono inv_cleanup)
next
  case (reach_recordRequest rl t cleanupNow now e)
  then show ?case by (blast intro: inv_recordRequest)
next
  case (reach_getRemainingRequests rl t now e)
  then show ?case
    by (auto simp: getRemainingRequests_def Let_def intro: inv_mono inv_cleanup)
next
  case (reach_getTimeUntilNextRequest rl t cleanupNow now e)
  then have "rateWindowInv (cleanupOldRequests cleanupNow e rl) now"
    by (blast intro: inv_cleanup inv_mono order_trans)
  then show ?case
    by (simp add: getTimeUntilNextRequest_def Let_def split: list.splits)
next
  case (reach_reset rl t e)
  then show ?case by (blast intro: inv_reset)
qed

text \<open>
  Claim C10: under a non-decreasing clock, in every reachable state of the
  limiter each endpoint's request list is in ascending timestamp order (and
  non-empty), so the element at index 0 is the oldest request of the list.
\<close>

theorem rate_window_sorted:
  assumes "reachable rl t" and "requests rl e = Some rs"
  shows "sorted rs \<and> rs \<noteq> [] \<and> rs ! 0 = Min (set rs)"
proof -
  from reachable_inv [OF assms(1)] assms(2) have s: "sorted rs" and ne: "rs \<noteq> []"
    by (auto simp: rateWindowInv_def)
  from ne obtain x xs where rs: "rs = x # xs" by (cases rs) auto
  with s have "\<forall>y \<in> set xs. x \<le> y" by simp
  then have "Min (set rs) = x"
    unfolding rs by (intro Min_eqI) auto
  with s ne rs show ?thesis by simp
qed


theorem rate_window_sorted_witness:
  "reachable (recordRequest 5 6 ''x'' (recordRequest 1 1 ''x'' rateLimiter)) 6
   \<and> requests (recordRequest 5 6 ''x'' (recordRequest 1 1 ''x'' rateLimiter)) ''x'' = Some [1, 6]
   \<and> sorted [1, 6 :: int] \<and> [1, 6 :: int] \<noteq> [] \<and> [1, 6 :: int] ! 0 = Min (set [1, 6])"
proof -
  have "reachable rateLimiter 0"
    unfolding rateLimiter_def by (rule reach_new)
  then have "reachable (recordRequest 1 1 ''x'' rateLimiter) 1"
    by (rule reach_recordRequest) simp_all
  then have r: "reachable (recordRequest 5 6 ''x'' (recordRequest 1 1 ''x'' rateLimiter)) 6"
    by (rule reach_recordRequest) simp_all
  have s: "requests (recordRequest 5 6 ''x'' (recordRequest 1 1 ''x'' rateLimiter)) ''x''
             = Some [1, 6]"
    by (simp add: recordRequest_def cleanupOldRequests_def endpointRequestsOf_def
        rateLimiter_def newRateLimiter_def RATE_LIMIT_windowMs_def Let_def)
  from rate_window_sorted [OF r s] r s show ?thesis by blast
qed

section \<open>Properties of the retrying HTTP access\<close>

lemmas retry_simps = fetchWithRetry.simps handleHTTPError.simps handleFetchError.simps
  calculateBackoffDelay_def DEFAULT_RETRY_CONFIG_def response_ok_def Let_def

text \<open>
  Claim C2 says that a structurally invalid (null) response body makes the fetch
  fail on the first attempt, without any retry. The code retries it: when every
  response is HTTP 200 with the body \<^verbatim>\<open>null\<close>, the client with the default retry
  configuration sleeps the three backoff delays, that is, makes three retries,
  and then fails with a retryable network error. An HTTP 404 response does fail
  on the first attempt, with a non-retryable API error.
\<close>

theorem invalid_body_is_retried:
  "fetchWithRetry DEFAULT_RETRY_CONFIG (\<lambda>retryCount. Response 200 (BodyNull :: string Body)) 0 =
     (Inl \<lparr> errorType = NETWORK_ERROR, retryable = True \<rparr>, [2000, 4000, 8000])
   \<and> fetchWithRetry DEFAULT_RETRY_CONFIG (\<lambda>retryCount. Response 404 (BodyNull :: string Body)) 0 =
     (Inl \<lparr> errorType = API_ERROR, retryable = False \<rparr>, [])"
  by (simp add: retry_simps)

section \<open>Properties of the access layer\<close>

lemmas access_defs = fetchWithCacheAndRateLimit_def CacheManager_get_def CacheManager_set_def
  isValid_def canMakeRequest_def cleanupOldRequests_def endpointRequestsOf_def recordRequest_def
  clockAt_def rateLimiter_def newRateLimiter_def RATE_LIMIT_maxRequests_def RATE_LIMIT_windowMs_def
  Let_def

text \<open>
  Claim C1 says that a call whose transport fails, and a call that the rate
  limiter denies, return the last cached value even when that cache entry has
  expired. The code does not. Take the entry for \<^verbatim>\<open>cyclone\<close> set at time 0 with a
  TTL of 300000 and a call at time 400000: when the transport fails the failure
  is propagated to the caller, and when the limiter denies the request (twelve
  requests within the last hour) the call returns \<^verbatim>\<open>null\<close>. In both cases the
  \<^verbatim>\<open>get\<close> that opens the call has already removed the expired entry.
\<close>

theorem expired_entry_not_served:
  "fst (fetchWithCacheAndRateLimit (\<lambda>d. True) (clockAt 400000) ''cyclone''
        (Inl \<lparr> errorType = NETWORK_ERROR, retryable = True \<rparr>) 300000
        (CacheManager_set 0 ''cyclone'' ''old'' 300000 Map.empty, rateLimiter))
     = Inl \<lparr> errorType = NETWORK_ERROR, retryable = True \<rparr>
   \<and> fst (fetchWithCacheAndRateLimit (\<lambda>d. True) (clockAt 400000) ''cyclone''
        (Inr ''new'') 300000
        (CacheManager_set 0 ''cyclone'' ''old'' 300000 Map.empty,
         rateLimiter \<lparr> requests := [''cyclone'' \<mapsto>
            [350000, 350001, 350002, 350003, 350004, 350005,
             350006, 350007, 350008, 350009, 350010, 350011]] \<rparr>))
     = Inr None"
  by (simp add: access_defs)

section \<open>Properties of the persistent store\<close>

lemmas storage_key_defs =
  LAST_CYCLONE_def SAVED_ROUTES_def CHECKLIST_STATE_def LANGUAGE_PREFERENCE_def

lemma delete_map_le: "s(key := None) \<subseteq>\<^sub>m s"
  by (simp add: map_le_def)

lemma removeOldest_map_le: "removeOldest cur rem entries s \<subseteq>\<^sub>m s"
proof (induction entries arbitrary: rem s)
  case Nil
  then show ?case by simp
next
  case (Cons entry rest)
  have "removeOldest cur (rem + qi_size entry) rest (s(qi_key entry := None)) \<subseteq>\<^sub>m s"
    by (rule map_le_trans [OF Cons delete_map_le])
  then show ?case by simp
qed

lemma collectItems_map_le: "snd (collectItems keys acc s) \<subseteq>\<^sub>m s"
proof (induction keys arbitrary: acc s)
  case Nil
  then show ?case by simp
next
  case (Cons k keys)
  have "snd (collectItems keys acc (s(k := None))) \<subseteq>\<^sub>m s" for acc
    by (rule map_le_trans [OF Cons delete_map_le])
  with Cons show ?case
    by (simp split: option.splits)
qed

lemma map_le_granular: "s' \<subseteq>\<^sub>m s \<Longrightarrow> s' key = None \<or> s' key = s key"
  by (auto simp: map_le_def dom_def)

lemma manageStorageQuota_map_le: "manageStorageQuota host s \<subseteq>\<^sub>m s"
proof (cases "getStorageSize s > STORAGE_maxSizeBytes")
  case False
  then show ?thesis by (simp add: manageStorageQuota_def)
next
  case True
  obtain collected s1 where c: "collectItems STORAGE_KEY_VALUES [] s = (collected, s1)"
    by (cases "collectItems STORAGE_KEY_VALUES [] s")
  from collectItems_map_le [of STORAGE_KEY_VALUES "[]" s] c have "s1 \<subseteq>\<^sub>m s"
    by simp
  with removeOldest_map_le
  have "removeOldest (getStorageSize s) 0 (sortItems host collected) s1 \<subseteq>\<^sub>m s"
    by (rule map_le_trans)
  with True c show ?thesis
    by (simp add: manageStorageQuota_def Let_def)
qed

lemma set_sortItems: "set (sortItems host collected) = set collected"
  by (simp add: sortItems_def)

lemma removeOldest_keeps:
  "key \<notin> qi_key ` set entries \<Longrightarrow> removeOldest cur rem entries s key = s key"
  by (induction entries arbitrary: rem s) auto

lemma collectItems_no_language:
  "LANGUAGE_PREFERENCE \<notin> qi_key ` set acc \<Longrightarrow>
   LANGUAGE_PREFERENCE \<notin> qi_key ` set (fst (collectItems keys acc s))"
  by (induction keys arbitrary: acc s) (auto split: option.splits)

lemma collectItems_keeps_language:
  "snd (collectItems keys acc s) LANGUAGE_PREFERENCE = s LANGUAGE_PREFERENCE"
  by (induction keys arbitrary: acc s) (auto split: option.splits)

text \<open>The language-preference record is never deleted by quota management.\<close>

lemma manageStorageQuota_keeps_language:
  "manageStorageQuota host s LANGUAGE_PREFERENCE = s LANGUAGE_PREFERENCE"
proof (cases "getStorageSize s > STORAGE_maxSizeBytes")
  case False
  then show ?thesis by (simp add: manageStorageQuota_def)
next
  case True
  obtain collected s1 where c: "collectItems STORAGE_KEY_VALUES [] s = (collected, s1)"
    by (cases "collectItems STORAGE_KEY_VALUES [] s")
  from collectItems_no_language [of "[]" STORAGE_KEY_VALUES s] c
  have "LANGUAGE_PREFERENCE \<notin> qi_key ` set (sortItems host collected)"
    by (simp add: set_sortItems)
  then have "removeOldest (getStorageSize s) 0 (sortItems host collected) s1 LANGUAGE_PREFERENCE
      = s1 LANGUAGE_PREFERENCE"
    by (rule removeOldest_keeps)
  moreover from collectItems_keeps_language [of STORAGE_KEY_VALUES "[]" s] c
  have "s1 LANGUAGE_PREFERENCE = s LANGUAGE_PREFERENCE" by simp
  ultimately show ?thesis
    using True c by (simp add: manageStorageQuota_def Let_def)
qed

lemma presentItem_Some: "presentItem s key = Some item \<Longrightarrow> s key = Some item"
  by (auto simp: presentItem_def split: option.splits if_splits)

lemma quotaItemOf_parsed:
  assumes "presentItem s key = Some item" and "item_parsed item = Some stored"
    and "stored_timestamp stored = Some t"
  shows "quotaItemOf s key =
     \<lparr> qi_key = key, qi_timestamp = stored_timestamp stored, qi_size = int (item_length item) * 2 \<rparr>"
  using assms presentItem_Some [OF assms(1)]
  by (simp add: quotaItemOf_def recordTimestamp_def recordSize_def)

lemma collectItems_well_formed:
  assumes "\<forall>key \<in> set keys. key \<noteq> LANGUAGE_PREFERENCE \<longrightarrow>
             (case presentItem s key of None \<Rightarrow> True | Some item \<Rightarrow> wellFormedRecord item)"
  shows "collectItems keys acc s =
     (acc @ map (quotaItemOf s)
              (filter (\<lambda>key. presentItem s key \<noteq> None)
                 (filter (\<lambda>key. key \<noteq> LANGUAGE_PREFERENCE) keys)), s)"
  using assms
proof (induction keys arbitrary: acc)
  case Nil
  then show ?case by simp
next
  case (Cons k keys)
  from Cons.prems have rest: "\<forall>key \<in> set keys. key \<noteq> LANGUAGE_PREFERENCE \<longrightarrow>
      (case presentItem s key of None \<Rightarrow> True | Some item \<Rightarrow> wellFormedRecord item)"
    by simp
  note ih = Cons.IH [OF rest]
  show ?case
  proof (cases "k = LANGUAGE_PREFERENCE")
    case True
    then show ?thesis by (simp add: ih)
  next
    case notLang: False
    show ?thesis
    proof (cases "presentItem s k")
      case None
      with notLang show ?thesis by (simp add: ih)
    next
      case (Some item)
      with Cons.prems notLang have "wellFormedRecord item"
        by simp
      then obtain stored t where p: "item_parsed item = Some stored"
        and t: "stored_timestamp stored = Some t"
        by (auto simp: wellFormedRecord_def split: option.splits)
      from notLang Some p show ?thesis
        by (simp add: ih quotaItemOf_parsed [OF Some p t])
    qed
  qed
qed

lemma insort_key_map:
  "insort_key f (g x) (map g ys) = map g (insort_key (\<lambda>y. f (g y)) x ys)"
  by (induction ys) auto

lemma sort_key_map:
  "sort_key f (map g xs) = map g (sort_key (\<lambda>y. f (g y)) xs)"
  by (induction xs) (simp_all add: insort_key_map)

lemma sortItems_well_formed:
  "sortItems host (map (quotaItemOf s) keys) =
     map (quotaItemOf s) (sort_key (recordTimestamp s) keys)"
proof -
  have "list_all (\<lambda>item. qi_timestamp item \<noteq> None) (map (quotaItemOf s) keys)"
    by (simp add: list_all_iff quotaItemOf_def)
  then show ?thesis
    by (simp add: sortItems_def sort_key_map timestampOrZero_def quotaItemOf_def)
qed

lemma getStorageSize_sum:
  "getStorageSize s =
     recordSize s LAST_CYCLONE + recordSize s SAVED_ROUTES + recordSize s CHECKLIST_STATE
     + recordSize s LANGUAGE_PREFERENCE"
  by (simp add: getStorageSize_def STORAGE_KEY_VALUES_def recordSize_def split: option.splits)

lemma recordSize_delete:
  "recordSize (s(key := None)) key' = (if key' = key then 0 else recordSize s key')"
  by (simp add: recordSize_def presentItem_def)

lemma storage_keys_distinct: "distinct STORAGE_KEY_VALUES"
  by (simp add: STORAGE_KEY_VALUES_def storage_key_defs)

lemma getStorageSize_delete:
  assumes "key \<in> set STORAGE_KEY_VALUES"
  shows "getStorageSize (s(key := None)) = getStorageSize s - recordSize s key"
  using assms storage_keys_distinct
  by (auto simp: getStorageSize_sum recordSize_delete STORAGE_KEY_VALUES_def)

lemma removeOldest_refines:
  assumes "distinct keys" and "set keys \<subseteq> set STORAGE_KEY_VALUES"
    and "\<forall>key \<in> set keys. recordSize s key = recordSize s0 key"
    and "cur - rem = getStorageSize s"
  shows "removeOldest cur rem (map (quotaItemOf s0) keys) s = deleteUntilUnderQuota keys s"
  using assms
proof (induction keys arbitrary: rem s)
  case Nil
  then show ?case by simp
next
  case (Cons k keys)
  show ?case
  proof (cases "getStorageSize s \<le> STORAGE_maxSizeBytes")
    case True
    with Cons.prems(4) show ?thesis by simp
  next
    case False
    from Cons.prems have d: "distinct keys" and sub: "set keys \<subseteq> set STORAGE_KEY_VALUES"
      and k: "k \<in> set STORAGE_KEY_VALUES" and notin: "k \<notin> set keys"
      and sz: "recordSize s k = recordSize s0 k"
      by auto
    from Cons.prems(3) notin
    have same: "\<forall>key \<in> set keys. recordSize (s(k := None)) key = recordSize s0 key"
      by (auto simp: recordSize_delete)
    from Cons.prems(4) sz getStorageSize_delete [OF k, of s]
    have run: "cur - (rem + recordSize s0 k) = getStorageSize (s(k := None))"
      by simp
    from False Cons.prems(4)
    have code: "removeOldest cur rem (map (quotaItemOf s0) (k # keys)) s =
        removeOldest cur (rem + recordSize s0 k) (map (quotaItemOf s0) keys) (s(k := None))"
      by (simp add: quotaItemOf_def)
    from False
    have spec: "deleteUntilUnderQuota (k # keys) s = deleteUntilUnderQuota keys (s(k := None))"
      by simp
    show ?thesis
      unfolding code spec by (rule Cons.IH [OF d sub same run])
  qed
qed

lemma evictableKeys_subset: "set evictableKeys \<subseteq> set STORAGE_KEY_VALUES"
  by (auto simp: evictableKeys_def)

text \<open>
  On a store in which every non-exempt record parses and has a numeric
  timestamp, quota management does what the quota rule says: it deletes the
  non-exempt records oldest first, one at a time, until the total is at or below
  5MB or none is left.
\<close>

lemma manageStorageQuota_refines:
  assumes "allRecordsWellFormed s"
  shows "manageStorageQuota host s = spec_quotaEviction s"
proof (cases "getStorageSize s > STORAGE_maxSizeBytes")
  case False
  then show ?thesis by (simp add: manageStorageQuota_def spec_quotaEviction_def)
next
  case True
  let ?present = "filter (\<lambda>key. presentItem s key \<noteq> None) evictableKeys"
  let ?sorted = "sort_key (recordTimestamp s) ?present"
  from assms have parse: "\<forall>key \<in> set STORAGE_KEY_VALUES. key \<noteq> LANGUAGE_PREFERENCE \<longrightarrow>
      (case presentItem s key of None \<Rightarrow> True | Some item \<Rightarrow> wellFormedRecord item)"
    by (simp add: allRecordsWellFormed_def evictableKeys_def list_all_iff)
  have collected: "collectItems STORAGE_KEY_VALUES [] s = (map (quotaItemOf s) ?present, s)"
    using collectItems_well_formed [OF parse, of "[]"] by (simp add: evictableKeys_def)
  have order: "sortItems host (map (quotaItemOf s) ?present) = map (quotaItemOf s) ?sorted"
    by (rule sortItems_well_formed)
  have "distinct evictableKeys"
    using storage_keys_distinct by (simp add: evictableKeys_def)
  then have d: "distinct ?sorted" by simp
  have sub: "set ?sorted \<subseteq> set STORAGE_KEY_VALUES"
    using evictableKeys_subset by auto
  have "removeOldest (getStorageSize s) 0 (map (quotaItemOf s) ?sorted) s
          = deleteUntilUnderQuota ?sorted s"
    by (rule removeOldest_refines [OF d sub]) simp_all
  with True collected order show ?thesis
    by (simp add: manageStorageQuota_def spec_quotaEviction_def Let_def)
qed

lemmas example_defs = routeA_def routeB_def exampleRoute_def smallHost_def mediumHost_def
  bigHost_def fullHost_def corruptItem_def checklistItem_def cycloneItem_def twoRoutesItem_def
  twoRoutesStore_def corruptStore_def

lemmas quota_eval = manageStorageQuota_def getStorageSize_def STORAGE_KEY_VALUES_def
  presentItem_def STORAGE_maxSizeBytes_def storage_key_defs sortItems_def timestampOrZero_def
  Let_def

text \<open>
  Claim C5 says that, once the total exceeds 5MB, quota management deletes
  non-exempt records one at a time, oldest first, until the total is at or below
  5MB. With an unparsable record in the store the code does not stop there.
  Saving a route into a store that holds a corrupt last-cyclone record of 6MB
  and a small checklist record brings the total above 5MB. The collecting loop
  removes the corrupt record, which leaves the total under 5MB; the size of that
  record is not subtracted from the running total, so the deleting loop still
  sees the total above 5MB and deletes the checklist record and the route record
  just written. The quota rule of the specification keeps both.
\<close>

theorem quota_eviction_overshoots:
  "snd (saveRoute smallHost 1000 1000 exampleRoute corruptStore) =
     manageStorageQuota smallHost (corruptStore(SAVED_ROUTES \<mapsto>
        stringify smallHost \<lparr> stored_data = Routes [exampleRoute], stored_timestamp = Some 1000 \<rparr>))
   \<and> getStorageSize (corruptStore(SAVED_ROUTES \<mapsto>
        stringify smallHost \<lparr> stored_data = Routes [exampleRoute], stored_timestamp = Some 1000 \<rparr>))
       > STORAGE_maxSizeBytes
   \<and> getStorageSize (snd (collectItems STORAGE_KEY_VALUES [] (corruptStore(SAVED_ROUTES \<mapsto>
        stringify smallHost \<lparr> stored_data = Routes [exampleRoute], stored_timestamp = Some 1000 \<rparr>))))
       \<le> STORAGE_maxSizeBytes
   \<and> snd (saveRoute smallHost 1000 1000 exampleRoute corruptStore) LAST_CYCLONE = None
   \<and> snd (saveRoute smallHost 1000 1000 exampleRoute corruptStore) CHECKLIST_STATE = None
   \<and> snd (saveRoute smallHost 1000 1000 exampleRoute corruptStore) SAVED_ROUTES = None
   \<and> spec_quotaEviction (corruptStore(SAVED_ROUTES \<mapsto>
        stringify smallHost \<lparr> stored_data = Routes [exampleRoute], stored_timestamp = Some 1000 \<rparr>))
       CHECKLIST_STATE = Some checklistItem
   \<and> spec_quotaEviction (corruptStore(SAVED_ROUTES \<mapsto>
        stringify smallHost \<lparr> stored_data = Routes [exampleRoute], stored_timestamp = Some 1000 \<rparr>))
       SAVED_ROUTES =
       Some (stringify smallHost
              \<lparr> stored_data = Routes [exampleRoute], stored_timestamp = Some 1000 \<rparr>)"
  by (simp add: saveRoute_def getSavedRoutes_def upsertRoute_def stringify_def quota_eval
      spec_quotaEviction_def evictableKeys_def recordTimestamp_def example_defs)

text \<open>
  Claim C3 says that no storage failure is propagated out of the store's
  operations: they return the empty or default result. The code propagates it:
  reading the routes when the stored value does not parse, saving a route on top
  of such a value, and saving a route when the host rejects the write each end
  in a storage error, because \<^verbatim>\<open>handleStorageError\<close> throws after logging.
\<close>

theorem storage_error_escapes:
  "getSavedRoutes 1000 [SAVED_ROUTES \<mapsto> corruptItem] =
     (Inl \<lparr> errorType = STORAGE_ERROR, retryable = False \<rparr>, [SAVED_ROUTES \<mapsto> corruptItem])
   \<and> fst (saveRoute smallHost 1000 1000 exampleRoute [SAVED_ROUTES \<mapsto> corruptItem]) =
       Inl \<lparr> errorType = STORAGE_ERROR, retryable = False \<rparr>
   \<and> saveRoute fullHost 1000 1000 exampleRoute Map.empty =
       (Inl \<lparr> errorType = STORAGE_ERROR, retryable = False \<rparr>, Map.empty)"
  by (simp add: getSavedRoutes_def saveRoute_def presentItem_def handleStorageError_def
      upsertRoute_def stringify_def example_defs)

lemma getSavedRoutes_absent:
  "s SAVED_ROUTES = None \<Longrightarrow> getSavedRoutes now s = (Inr [], s)"
  by (simp add: getSavedRoutes_def presentItem_def)

lemma getSavedRoutes_routesRecord:
  assumes "s SAVED_ROUTES = Some (routesRecord host routes writeNow)"
    and "0 < jsonLength host \<lparr> stored_data = Routes routes, stored_timestamp = Some writeNow \<rparr>"
    and "\<not> isExpired now (Some writeNow) STORAGE_maxAgeMs"
  shows "getSavedRoutes now s = (Inr routes, s)"
  using assms by (simp add: getSavedRoutes_def presentItem_def routesRecord_def stringify_def)

lemma saveRoute_writes:
  assumes "getSavedRoutes readNow s = (Inr routes, s1)"
  shows "saveRoute host readNow writeNow route s =
     (if hostAccepts host s1 SAVED_ROUTES (routesRecord host (upsertRoute route routes) writeNow)
      then (Inr (), manageStorageQuota host
              (s1(SAVED_ROUTES \<mapsto> routesRecord host (upsertRoute route routes) writeNow)))
      else (Inl handleStorageError, s1))"
  using assms by (simp add: saveRoute_def routesRecord_def Let_def)

lemma saveChecklistState_writes:
  "saveChecklistState host writeNow state s =
     (if hostAccepts host s CHECKLIST_STATE (checklistRecord host state writeNow)
      then (Inr (), manageStorageQuota host
              (s(CHECKLIST_STATE \<mapsto> checklistRecord host state writeNow)))
      else (Inl handleStorageError, s))"
  by (simp add: saveChecklistState_def checklistRecord_def Let_def)

lemma findIndex_Some:
  "findIndex p xs = Some i \<Longrightarrow> i < length xs \<and> p (xs ! i)"
proof (induction xs arbitrary: i)
  case Nil
  then show ?case by simp
next
  case (Cons x xs)
  show ?case
  proof (cases "p x")
    case True
    with Cons.prems show ?thesis by simp
  next
    case False
    with Cons.prems obtain j where "findIndex p xs = Some j" and "i = Suc j"
      by auto
    with Cons.IH [of j] show ?thesis by simp
  qed
qed

lemma upsertRoute_has_new: "route \<in> set (upsertRoute route routes)"
proof (cases "findIndex (\<lambda>r. source r = source route \<and> destination r = destination route) routes")
  case None
  then show ?thesis by (simp add: upsertRoute_def)
next
  case (Some i)
  from findIndex_Some [OF Some] have "i < length routes" by simp
  then show ?thesis using Some by (simp add: upsertRoute_def set_update_memI)
qed

lemma upsertRoute_keeps_others:
  assumes "r \<in> set routes"
    and "\<not> (source r = source route \<and> destination r = destination route)"
  shows "r \<in> set (upsertRoute route routes)"
proof (cases "findIndex (\<lambda>r. source r = source route \<and> destination r = destination route) routes")
  case None
  with assms(1) show ?thesis by (simp add: upsertRoute_def)
next
  case (Some i)
  from findIndex_Some [OF Some]
  have i: "source (routes ! i) = source route \<and> destination (routes ! i) = destination route"
    by simp
  from assms(1) obtain j where j: "j < length routes" "routes ! j = r"
    by (auto simp: in_set_conv_nth)
  with assms(2) i have "j \<noteq> i" by auto
  with j have "(routes[i := route]) ! j = r" by simp
  with j(1) have "r \<in> set (routes[i := route])"
    by (metis length_list_update nth_mem)
  with Some show ?thesis by (simp add: upsertRoute_def)
qed

text \<open>
  Claim C9: quota management removes whole records only: every key either keeps
  its record unchanged or loses it. All saved routes are serialized together
  under the single key \<^verbatim>\<open>cyclone_saved_routes\<close>: \<^verbatim>\<open>saveRoute\<close> writes, under that
  key, one record that holds the route being saved and every route saved before
  with another source or destination, and then runs quota management; after
  that the key holds either that whole record, and \<^verbatim>\<open>getSavedRoutes\<close> returns
  the complete list, or nothing, and \<^verbatim>\<open>getSavedRoutes\<close> returns the empty list:
  every saved route is gone, the one just saved included. Likewise
  \<^verbatim>\<open>saveChecklistState\<close> writes the whole checklist state as one record under
  its key, which quota management keeps whole or removes.
\<close>

theorem eviction_granularity:
  "(\<forall>key. manageStorageQuota host s key = None \<or> manageStorageQuota host s key = s key)
   \<and> (manageStorageQuota host s SAVED_ROUTES = None \<longrightarrow>
        getSavedRoutes now (manageStorageQuota host s) = (Inr [], manageStorageQuota host s))
   \<and> (getSavedRoutes readNow s = (Inr routes, s1) \<longrightarrow>
        saveRoute host readNow writeNow route s =
          (if hostAccepts host s1 SAVED_ROUTES (routesRecord host (upsertRoute route routes) writeNow)
           then (Inr (), manageStorageQuota host
                   (s1(SAVED_ROUTES \<mapsto> routesRecord host (upsertRoute route routes) writeNow)))
           else (Inl handleStorageError, s1))
        \<and> route \<in> set (upsertRoute route routes)
        \<and> (\<forall>r \<in> set routes.
              \<not> (source r = source route \<and> destination r = destination route) \<longrightarrow>
              r \<in> set (upsertRoute route routes))
        \<and> (manageStorageQuota host
              (s1(SAVED_ROUTES \<mapsto> routesRecord host (upsertRoute route routes) writeNow))
              SAVED_ROUTES = None
            \<or> manageStorageQuota host
              (s1(SAVED_ROUTES \<mapsto> routesRecord host (upsertRoute route routes) writeNow))
              SAVED_ROUTES = Some (routesRecord host (upsertRoute route routes) writeNow)))
   \<and> (s SAVED_ROUTES = Some (routesRecord host routes writeNow)
        \<and> 0 < jsonLength host \<lparr> stored_data = Routes routes, stored_timestamp = Some writeNow \<rparr>
        \<and> \<not> isExpired now (Some writeNow) STORAGE_maxAgeMs \<longrightarrow>
        getSavedRoutes now s = (Inr routes, s))
   \<and> saveChecklistState host writeNow state s =
        (if hostAccepts host s CHECKLIST_STATE (checklistRecord host state writeNow)
         then (Inr (), manageStorageQuota host
                 (s(CHECKLIST_STATE \<mapsto> checklistRecord host state writeNow)))
         else (Inl handleStorageError, s))
   \<and> (manageStorageQuota host (s(CHECKLIST_STATE \<mapsto> checklistRecord host state writeNow))
         CHECKLIST_STATE = None
       \<or> manageStorageQuota host (s(CHECKLIST_STATE \<mapsto> checklistRecord host state writeNow))
         CHECKLIST_STATE = Some (checklistRecord host state writeNow))"
proof (intro conjI allI impI ballI)
  fix key
  show "manageStorageQuota host s key = None \<or> manageStorageQuota host s key = s key"
    by (rule map_le_granular [OF manageStorageQuota_map_le])
next
  assume "manageStorageQuota host s SAVED_ROUTES = None"
  then show "getSavedRoutes now (manageStorageQuota host s) = (Inr [], manageStorageQuota host s)"
    by (rule getSavedRoutes_absent)
next
  assume "getSavedRoutes readNow s = (Inr routes, s1)"
  then show "saveRoute host readNow writeNow route s =
          (if hostAccepts host s1 SAVED_ROUTES (routesRecord host (upsertRoute route routes) writeNow)
           then (Inr (), manageStorageQuota host
                   (s1(SAVED_ROUTES \<mapsto> routesRecord host (upsertRoute route routes) writeNow)))
           else (Inl handleStorageError, s1))"
    by (rule saveRoute_writes)
next
  show "route \<in> set (upsertRoute route routes)"
    by (rule upsertRoute_has_new)
next
  fix r
  assume "r \<in> set routes"
    and "\<not> (source r = source route \<and> destination r = destination route)"
  then show "r \<in> set (upsertRoute route routes)"
    by (rule upsertRoute_keeps_others)
next
  let ?written = "s1(SAVED_ROUTES \<mapsto> routesRecord host (upsertRoute route routes) writeNow)"
  from map_le_granular [OF manageStorageQuota_map_le, of host ?written SAVED_ROUTES]
  show "manageStorageQuota host ?written SAVED_ROUTES = None
      \<or> manageStorageQuota host ?written SAVED_ROUTES
          = Some (routesRecord host (upsertRoute route routes) writeNow)"
    by simp
next
  assume "s SAVED_ROUTES = Some (routesRecord host routes writeNow)
        \<and> 0 < jsonLength host \<lparr> stored_data = Routes routes, stored_timestamp = Some writeNow \<rparr>
        \<and> \<not> isExpired now (Some writeNow) STORAGE_maxAgeMs"
  then show "getSavedRoutes now s = (Inr routes, s)"
    by (blast intro: getSavedRoutes_routesRecord)
next
  show "saveChecklistState host writeNow state s =
        (if hostAccepts host s CHECKLIST_STATE (checklistRecord host state writeNow)
         then (Inr (), manageStorageQuota host
                 (s(CHECKLIST_STATE \<mapsto> checklistRecord host state writeNow)))
         else (Inl handleStorageError, s))"
    by (rule saveChecklistState_writes)
next
  let ?written = "s(CHECKLIST_STATE \<mapsto> checklistRecord host state writeNow)"
  from map_le_granular [OF manageStorageQuota_map_le, of host ?written CHECKLIST_STATE]
  show "manageStorageQuota host ?written CHECKLIST_STATE = None
      \<or> manageStorageQuota host ?written CHECKLIST_STATE
          = Some (checklistRecord host state writeNow)"
    by simp
qed

theorem eviction_granularity_witness:
  "getSavedRoutes 1000 twoRoutesStore = (Inr [routeA, routeB], twoRoutesStore)
   \<and> saveRoute mediumHost 1000 1000 exampleRoute twoRoutesStore =
       (Inr (), manageStorageQuota mediumHost (twoRoutesStore(SAVED_ROUTES \<mapsto>
                  routesRecord mediumHost [routeA, routeB, exampleRoute] 1000)))
   \<and> manageStorageQuota mediumHost (twoRoutesStore(SAVED_ROUTES \<mapsto>
          routesRecord mediumHost [routeA, routeB, exampleRoute] 1000)) LAST_CYCLONE = None
   \<and> getSavedRoutes 2000 (manageStorageQuota mediumHost (twoRoutesStore(SAVED_ROUTES \<mapsto>
          routesRecord mediumHost [routeA, routeB, exampleRoute] 1000))) =
       (Inr [routeA, routeB, exampleRoute],
        manageStorageQuota mediumHost (twoRoutesStore(SAVED_ROUTES \<mapsto>
          routesRecord mediumHost [routeA, routeB, exampleRoute] 1000)))
   \<and> saveRoute bigHost 1000 1000 exampleRoute twoRoutesStore =
       (Inr (), manageStorageQuota bigHost (twoRoutesStore(SAVED_ROUTES \<mapsto>
                  routesRecord bigHost [routeA, routeB, exampleRoute] 1000)))
   \<and> getSavedRoutes 2000 (manageStorageQuota bigHost (twoRoutesStore(SAVED_ROUTES \<mapsto>
          routesRecord bigHost [routeA, routeB, exampleRoute] 1000))) =
       (Inr [],
        manageStorageQuota bigHost (twoRoutesStore(SAVED_ROUTES \<mapsto>
          routesRecord bigHost [routeA, routeB, exampleRoute] 1000)))
   \<and> saveChecklistState smallHost 1000 exampleChecklist twoRoutesStore =
       (Inr (), manageStorageQuota smallHost (twoRoutesStore(CHECKLIST_STATE \<mapsto>
                  checklistRecord smallHost exampleChecklist 1000)))
   \<and> manageStorageQuota smallHost (twoRoutesStore(CHECKLIST_STATE \<mapsto>
          checklistRecord smallHost exampleChecklist 1000)) CHECKLIST_STATE =
       Some (checklistRecord smallHost exampleChecklist 1000)"
proof -
  let ?all = "[routeA, routeB, exampleRoute]"
  let ?medium = "twoRoutesStore(SAVED_ROUTES \<mapsto> routesRecord mediumHost ?all 1000)"
  let ?big = "twoRoutesStore(SAVED_ROUTES \<mapsto> routesRecord bigHost ?all 1000)"
  let ?check = "twoRoutesStore(CHECKLIST_STATE \<mapsto> checklistRecord smallHost exampleChecklist 1000)"
  have read: "getSavedRoutes 1000 twoRoutesStore = (Inr [routeA, routeB], twoRoutesStore)"
    by (simp add: getSavedRoutes_def presentItem_def isExpired_def STORAGE_maxAgeMs_def
        storage_key_defs twoRoutesStore_def twoRoutesItem_def cycloneItem_def)
  have upsert: "upsertRoute exampleRoute [routeA, routeB] = ?all"
    by (simp add: upsertRoute_def routeA_def routeB_def exampleRoute_def)
  note medium = eviction_granularity [where host = mediumHost and s = twoRoutesStore
      and readNow = 1000 and routes = "[routeA, routeB]" and ?s1.0 = twoRoutesStore
      and writeNow = 1000 and route = exampleRoute]
  from medium read
  have a: "saveRoute mediumHost 1000 1000 exampleRoute twoRoutesStore =
      (Inr (), manageStorageQuota mediumHost ?medium)"
    by (simp add: upsert mediumHost_def)
  have kept: "manageStorageQuota mediumHost ?medium SAVED_ROUTES
      = Some (routesRecord mediumHost ?all 1000)"
    by (simp add: routesRecord_def stringify_def quota_eval example_defs)
  have evicted: "manageStorageQuota mediumHost ?medium LAST_CYCLONE = None"
    by (simp add: routesRecord_def stringify_def quota_eval example_defs)
  have len: "0 < jsonLength mediumHost \<lparr> stored_data = Routes ?all, stored_timestamp = Some 1000 \<rparr>"
    by (simp add: mediumHost_def)
  have fresh: "\<not> isExpired 2000 (Some 1000) STORAGE_maxAgeMs"
    by (simp add: isExpired_def STORAGE_maxAgeMs_def)
  from eviction_granularity [where host = mediumHost
      and s = "manageStorageQuota mediumHost ?medium" and routes = ?all and writeNow = 1000
      and now = 2000] kept len fresh
  have b: "getSavedRoutes 2000 (manageStorageQuota mediumHost ?medium) =
      (Inr ?all, manageStorageQuota mediumHost ?medium)"
    by blast
  note big = eviction_granularity [where host = bigHost and s = twoRoutesStore
      and readNow = 1000 and routes = "[routeA, routeB]" and ?s1.0 = twoRoutesStore
      and writeNow = 1000 and route = exampleRoute]
  from big read
  have c: "saveRoute bigHost 1000 1000 exampleRoute twoRoutesStore =
      (Inr (), manageStorageQuota bigHost ?big)"
    by (simp add: upsert bigHost_def)
  have gone: "manageStorageQuota bigHost ?big SAVED_ROUTES = None"
    by (simp add: routesRecord_def stringify_def quota_eval example_defs)
  from eviction_granularity [where host = bigHost and s = ?big and now = 2000] gone
  have d: "getSavedRoutes 2000 (manageStorageQuota bigHost ?big) =
      (Inr [], manageStorageQuota bigHost ?big)"
    by blast
  from eviction_granularity [where host = smallHost and s = twoRoutesStore
      and writeNow = 1000 and state = exampleChecklist]
  have e: "saveChecklistState smallHost 1000 exampleChecklist twoRoutesStore =
      (Inr (), manageStorageQuota smallHost ?check)"
    by (simp add: smallHost_def)
  have f: "manageStorageQuota smallHost ?check CHECKLIST_STATE
      = Some (checklistRecord smallHost exampleChecklist 1000)"
    by (simp add: checklistRecord_def stringify_def quota_eval example_defs)
  from read a evicted b c d e f show ?thesis by blast
qed

end
